theory Spec2Isabelle
  imports Main "HOL-Library.Sublist" "HOL-Library.Multiset"
begin

section \<open>The multi-camera recorder of securitycam.py\<close>

text \<open>
  The development follows \<^verbatim>\<open>src/securitycam.py\<close> class by class: the \<^verbatim>\<open>VideoWriter\<close>
  wrapper, \<^verbatim>\<open>CameraProcess\<close> (construction, \<^verbatim>\<open>cleanup_old_files\<close>, \<^verbatim>\<open>start_new_chunk\<close>,
  \<^verbatim>\<open>record\<close>, \<^verbatim>\<open>stop\<close>) and \<^verbatim>\<open>MultiCameraSystem\<close> (\<^verbatim>\<open>load_config\<close>, \<^verbatim>\<open>signal_handler\<close>,
  \<^verbatim>\<open>run\<close>).

  Conventions of the embedding.
  \<^item> Python integers are \<^typ>\<open>int\<close>. The two floating-point quantities of the program, a
    file's \<^verbatim>\<open>st_mtime\<close> and the clock \<^verbatim>\<open>time.time()\<close>, are only compared and subtracted; they
    are integers here (a fixed time unit, seconds for the clock).
  \<^item> A raised exception is a value of \<^typ>\<open>'e + 'a\<close> (\<^term>\<open>Inl\<close> the exception) returned next to
    the state reached and the events emitted so far, so that every \<^verbatim>\<open>try\<close>/\<^verbatim>\<open>except\<close>/\<^verbatim>\<open>finally\<close>
    of the source is a case distinction of the model.
  \<^item> What the operating system, OpenCV and the other threads do is an explicit input:
    the directory listing with its per-file \<^verbatim>\<open>stat\<close>/\<^verbatim>\<open>unlink\<close> outcomes, the capture
    object, one record per loop iteration (frame read, encoder behaviour, clock).
  \<^item> Every call on an external object is recorded as an event, so that properties of
    the order and number of calls are properties of an event list.
\<close>

subsection \<open>Exceptions and log records\<close>

type_synonym path = "string list"

datatype exn =
    StatError string              \<comment> \<open>\<^verbatim>\<open>f.stat()\<close> raised \<^verbatim>\<open>OSError\<close> for this directory entry\<close>
  | UnlinkError string            \<comment> \<open>\<^verbatim>\<open>f.unlink()\<close> raised \<^verbatim>\<open>OSError\<close> for this directory entry\<close>
  | MkdirError path               \<comment> \<open>\<^verbatim>\<open>storage_dir.mkdir(...)\<close> raised\<close>
  | CameraOpenFailed int          \<comment> \<open>\<^verbatim>\<open>Exception(f"Failed to open camera {device_id}")\<close>\<close>
  | ReadFailed                    \<comment> \<open>\<^verbatim>\<open>Exception("Failed to read frame")\<close>\<close>
  | WriterError                   \<comment> \<open>the encoder raised inside \<^verbatim>\<open>writer.write(frame)\<close>\<close>
  | AttributeError                \<comment> \<open>a method call on \<^verbatim>\<open>None\<close>\<close>
  | TypeError                     \<comment> \<open>arithmetic on \<^verbatim>\<open>None\<close>\<close>
  | ConfigUnreadable              \<comment> \<open>\<^verbatim>\<open>open\<close> or \<^verbatim>\<open>json.load\<close> raised\<close>
  | KeyError string               \<comment> \<open>a missing key of the configuration\<close>

datatype log =
    Info_Removing string string   \<comment> \<open>camera id, file: "Removing old file"\<close>
  | Error_Cleanup string exn      \<comment> \<open>camera id: "Error during cleanup"\<close>
  | Error_Recording string exn    \<comment> \<open>camera id: "Recording error"\<close>
  | Error_LoadConfig exn          \<comment> \<open>"Failed to load config"\<close>
  | Info_ShutdownSignal           \<comment> \<open>"Received shutdown signal"\<close>

subsection \<open>The OpenCV objects\<close>

text \<open>
  OpenCV is not part of the repository. Its two classes are modelled by what the program
  reads of them. Constructing a \<^verbatim>\<open>cv2.VideoWriter\<close> does not raise: it returns a handle
  whose \<^verbatim>\<open>isOpened()\<close> tells whether the codec could be set up (the source relies on this,
  line 27). Writing to a handle that is not open does nothing; on an open handle the
  encoder writes the frame, loses it, or raises, as the environment decides.
  \<^verbatim>\<open>release()\<close> closes the handle and does not raise.
\<close>

datatype codec = MP4V | MJPG

record cv2_VideoWriter =
  vw_filename :: string
  vw_fourcc :: codec
  vw_fps :: int
  vw_frame_size :: "int \<times> int"
  vw_isOpened :: bool

record cv2_VideoCapture =
  cap_isOpened :: bool
  cap_width :: int
  cap_height :: int
  cap_fps :: int

datatype backend = Backend_writes | Backend_drops | Backend_raises

datatype write_result = Written | Dropped

definition cv2_VideoWriter_new ::
  "(codec \<Rightarrow> bool) \<Rightarrow> string \<Rightarrow> codec \<Rightarrow> int \<Rightarrow> int \<times> int \<Rightarrow> cv2_VideoWriter" where
  "cv2_VideoWriter_new codec_ok filename fourcc fps frame_size =
     \<lparr>vw_filename = filename, vw_fourcc = fourcc, vw_fps = fps,
      vw_frame_size = frame_size, vw_isOpened = codec_ok fourcc\<rparr>"

definition cv2_write :: "cv2_VideoWriter \<Rightarrow> backend \<Rightarrow> exn + write_result" where
  "cv2_write w b =
     (if \<not> vw_isOpened w then Inr Dropped
      else case b of
             Backend_writes \<Rightarrow> Inr Written
           | Backend_drops \<Rightarrow> Inr Dropped
           | Backend_raises \<Rightarrow> Inl WriterError)"

definition cv2_release :: "cv2_VideoWriter \<Rightarrow> cv2_VideoWriter" where
  "cv2_release w = w\<lparr>vw_isOpened := False\<rparr>"

subsection \<open>class VideoWriter\<close>

text \<open>
  \<^verbatim>\<open>w_ident\<close> is the identity of the Python object (the number of wrappers the camera
  made before it); the source has no such field.
\<close>

record VideoWriter =
  w_ident :: nat
  w_writer :: cv2_VideoWriter

definition VideoWriter_init ::
  "(codec \<Rightarrow> bool) \<Rightarrow> nat \<Rightarrow> string \<Rightarrow> int \<Rightarrow> int \<times> int \<Rightarrow> VideoWriter" where
  "VideoWriter_init codec_ok ident filename fps frame_size =
     (let self = \<lparr>w_ident = ident,
                  w_writer = cv2_VideoWriter_new codec_ok filename MP4V fps frame_size\<rparr>
      in if \<not> vw_isOpened (w_writer self)
         then self\<lparr>w_writer := cv2_VideoWriter_new codec_ok filename MJPG fps frame_size\<rparr>
         else self)"

definition VideoWriter_write :: "VideoWriter \<Rightarrow> backend \<Rightarrow> exn + write_result" where
  "VideoWriter_write self b = cv2_write (w_writer self) b"

definition VideoWriter_release :: "VideoWriter \<Rightarrow> VideoWriter" where
  "VideoWriter_release self = self\<lparr>w_writer := cv2_release (w_writer self)\<rparr>"

subsection \<open>class CameraProcess: state and construction\<close>

text \<open>
  \<^verbatim>\<open>writers_made\<close> counts the \<^verbatim>\<open>VideoWriter\<close> objects created so far and supplies
  \<^verbatim>\<open>w_ident\<close>; the other fields are those of the class.
\<close>

record CameraProcess =
  camera_id :: string
  device_id :: int
  storage_dir :: path
  max_storage_bytes :: int
  chunk_duration_mins :: int
  cap :: "cv2_VideoCapture option"
  writer :: "VideoWriter option"
  current_file :: "path option"
  chunk_start_time :: "int option"
  running :: bool
  writers_made :: nat

definition CameraProcess_init ::
  "(path \<Rightarrow> bool) \<Rightarrow> string \<Rightarrow> int \<Rightarrow> path \<Rightarrow> int \<Rightarrow> int \<Rightarrow> exn + CameraProcess" where
  "CameraProcess_init mkdir_ok cam_id dev_id base_dir max_storage_gb chunk_mins =
     (let self = \<lparr>camera_id = cam_id, device_id = dev_id,
                  storage_dir = base_dir @ [cam_id],
                  max_storage_bytes = max_storage_gb * 1024 * 1024 * 1024,
                  chunk_duration_mins = chunk_mins,
                  cap = None, writer = None, current_file = None,
                  chunk_start_time = None, running = False, writers_made = 0\<rparr>
      in if mkdir_ok (storage_dir self) then Inr self
         else Inl (MkdirError (storage_dir self)))"

definition stop :: "CameraProcess \<Rightarrow> CameraProcess" where
  "stop self = self\<lparr>running := False\<rparr>"

subsection \<open>The camera's directory and cleanup_old_files\<close>

text \<open>
  A directory is the list of its entries in the order the operating system lists them.
  An entry carries what \<^verbatim>\<open>stat()\<close> reports, whether \<^verbatim>\<open>stat()\<close> succeeds on it (it raises
  on a dangling link) and whether \<^verbatim>\<open>unlink()\<close> succeeds on it (it raises on a directory
  or without permission).
\<close>

record dirent =
  d_name :: string
  d_mtime :: int
  d_size :: int
  d_stat_ok :: bool
  d_unlink_ok :: bool

type_synonym dir = "dirent list"

definition is_mp4 :: "string \<Rightarrow> bool" where
  \<comment> \<open>the pattern \<^verbatim>\<open>*.mp4\<close> of \<^verbatim>\<open>Path.glob\<close>: any name that ends in \<^verbatim>\<open>.mp4\<close>\<close>
  "is_mp4 n = suffix ''.mp4'' n"

definition glob_mp4 :: "dir \<Rightarrow> dirent list" where
  "glob_mp4 d = filter (\<lambda>f. is_mp4 (d_name f)) d"

definition unlink :: "string \<Rightarrow> dir \<Rightarrow> dir" where
  "unlink n d = filter (\<lambda>f. d_name f \<noteq> n) d"

definition stat_all :: "dirent list \<Rightarrow> exn + unit" where
  \<comment> \<open>one \<^verbatim>\<open>stat()\<close> per element, in order, as the sort key and the size sum make them\<close>
  "stat_all fs =
     (case find (\<lambda>f. \<not> d_stat_ok f) fs of
        Some f \<Rightarrow> Inl (StatError (d_name f))
      | None \<Rightarrow> Inr ())"

text \<open>
  The \<^verbatim>\<open>while\<close> loop of lines 68 to 72. Its arguments are the object, \<^verbatim>\<open>total_size\<close>,
  \<^verbatim>\<open>video_files\<close> and the directory; it returns how the loop ended, the directory and
  the lines logged.
\<close>

fun evict ::
  "CameraProcess \<Rightarrow> int \<Rightarrow> dirent list \<Rightarrow> dir \<Rightarrow> (exn + unit) \<times> dir \<times> log list" where
  "evict self total_size [] d = (Inr (), d, [])"
| "evict self total_size (oldest_file # video_files) d =
     (if total_size > max_storage_bytes self then
        (if \<not> d_stat_ok oldest_file then (Inl (StatError (d_name oldest_file)), d, [])
         else
           let total_size' = total_size - d_size oldest_file;
               line = Info_Removing (camera_id self) (d_name oldest_file)
           in if \<not> d_unlink_ok oldest_file
              then (Inl (UnlinkError (d_name oldest_file)), d, [line])
              else (case evict self total_size' video_files (unlink (d_name oldest_file) d) of
                      (r, d', ls) \<Rightarrow> (r, d', line # ls)))
      else (Inr (), d, []))"

definition cleanup_old_files :: "CameraProcess \<Rightarrow> dir \<Rightarrow> dir \<times> log list" where
  "cleanup_old_files self d =
     (let listed = glob_mp4 d in
      case stat_all listed of
        Inl e \<Rightarrow> (d, [Error_Cleanup (camera_id self) e])
      | Inr _ \<Rightarrow>
          (let video_files = sort_key d_mtime listed;
               total_size = sum_list (map d_size video_files)
           in (case evict self total_size video_files d of
                 (Inl e, d', ls) \<Rightarrow> (d', ls @ [Error_Cleanup (camera_id self) e])
               | (Inr _, d', ls) \<Rightarrow> (d', ls))))"

subsection \<open>Events of a recording worker\<close>

datatype event =
    Ev_CapOpen int bool                 \<comment> \<open>\<^verbatim>\<open>cv2.VideoCapture(device_id)\<close> and its \<^verbatim>\<open>isOpened()\<close>\<close>
  | Ev_CapRead bool                     \<comment> \<open>\<^verbatim>\<open>cap.read()\<close> and its \<^verbatim>\<open>ret\<close>\<close>
  | Ev_CapRelease                       \<comment> \<open>\<^verbatim>\<open>cap.release()\<close>\<close>
  | Ev_WriterOpen nat string codec bool \<comment> \<open>a \<^verbatim>\<open>VideoWriter\<close> made: identity, file, codec kept, \<^verbatim>\<open>isOpened()\<close>\<close>
  | Ev_WriterWrite nat write_result     \<comment> \<open>\<^verbatim>\<open>writer.write(frame)\<close> returned\<close>
  | Ev_WriterWriteRaised nat            \<comment> \<open>\<^verbatim>\<open>writer.write(frame)\<close> raised\<close>
  | Ev_WriterRelease nat bool           \<comment> \<open>\<^verbatim>\<open>writer.release()\<close> and the handle's \<^verbatim>\<open>isOpened()\<close> after it\<close>
  | Ev_Cleanup dir dir                  \<comment> \<open>\<^verbatim>\<open>cleanup_old_files()\<close>: the directory before and after\<close>
  | Ev_Log log

subsection \<open>start_new_chunk\<close>

text \<open>
  What the environment supplies to one call: the formatted \<^verbatim>\<open>datetime.now()\<close>, which
  codecs OpenCV can set up for the new file, and the \<^verbatim>\<open>time.time()\<close> read at the end.
\<close>

record chunk_env =
  ce_timestamp :: string
  ce_codec_ok :: "codec \<Rightarrow> bool"
  ce_time :: int

fun path_str :: "path \<Rightarrow> string" where
  "path_str [] = ''.''"
| "path_str [x] = x"
| "path_str (x # xs) = x @ ''/'' @ path_str xs"

definition start_new_chunk ::
  "CameraProcess \<Rightarrow> chunk_env \<Rightarrow> (exn + unit) \<times> CameraProcess \<times> event list" where
  "start_new_chunk self e =
     (let (self1, evs1) =
            (case writer self of
               None \<Rightarrow> (self, [])
             | Some w \<Rightarrow> (self\<lparr>writer := Some (VideoWriter_release w)\<rparr>,
                          [Ev_WriterRelease (w_ident w)
                             (vw_isOpened (w_writer (VideoWriter_release w)))]));
          self2 = self1\<lparr>current_file := Some (storage_dir self1 @ [ce_timestamp e @ ''.mp4''])\<rparr>
      in case cap self2 of
           None \<Rightarrow> (Inl AttributeError, self2, evs1)
         | Some cp \<Rightarrow>
             (let w = VideoWriter_init (ce_codec_ok e) (writers_made self2)
                        (path_str (storage_dir self2 @ [ce_timestamp e @ ''.mp4'']))
                        (cap_fps cp) (cap_width cp, cap_height cp);
                  self3 = self2\<lparr>writer := Some w, writers_made := Suc (writers_made self2),
                                chunk_start_time := Some (ce_time e)\<rparr>
              in (Inr (), self3,
                  evs1 @ [Ev_WriterOpen (w_ident w) (vw_filename (w_writer w))
                            (vw_fourcc (w_writer w)) (vw_isOpened (w_writer w))])))"

subsection \<open>record: one iteration, the loop, the whole method\<close>

text \<open>
  What the environment supplies to one iteration of the \<^verbatim>\<open>while\<close> loop: the result of
  the frame read, how the encoder behaves on the frame, the clock read by the rotation
  test, the inputs of \<^verbatim>\<open>start_new_chunk\<close> and the directory listing (both used only if
  the chunk is rotated), and whether the supervisor calls \<^verbatim>\<open>stop()\<close> while the iteration
  runs.
\<close>

record step =
  st_read :: bool
  st_write :: backend
  st_now :: int
  st_chunk :: chunk_env
  st_dir :: dir
  st_stop :: bool

definition iteration ::
  "CameraProcess \<Rightarrow> step \<Rightarrow> (exn + unit) \<times> CameraProcess \<times> event list" where
  "iteration self s =
     (case cap self of
        None \<Rightarrow> (Inl AttributeError, self, [])
      | Some _ \<Rightarrow>
         if \<not> st_read s then (Inl ReadFailed, self, [Ev_CapRead False])
         else
           (case writer self of
              None \<Rightarrow> (Inl AttributeError, self, [Ev_CapRead True])
            | Some w \<Rightarrow>
               (case VideoWriter_write w (st_write s) of
                  Inl e \<Rightarrow> (Inl e, self, [Ev_CapRead True, Ev_WriterWriteRaised (w_ident w)])
                | Inr r \<Rightarrow>
                   (let evs = [Ev_CapRead True, Ev_WriterWrite (w_ident w) r] in
                    case chunk_start_time self of
                      None \<Rightarrow> (Inl TypeError, self, evs)
                    | Some t0 \<Rightarrow>
                       if st_now s - t0 > chunk_duration_mins self * 60 then
                         (case start_new_chunk self (st_chunk s) of
                            (Inl e, self1, evs1) \<Rightarrow> (Inl e, self1, evs @ evs1)
                          | (Inr _, self1, evs1) \<Rightarrow>
                              (case cleanup_old_files self1 (st_dir s) of
                                 (d', ls) \<Rightarrow>
                                   (Inr (), self1,
                                    evs @ evs1 @ [Ev_Cleanup (st_dir s) d'] @ map Ev_Log ls)))
                       else (Inr (), self, evs)))))"

text \<open>
  The loop runs on the finite list of iterations the environment has supplied so far.
  \<^term>\<open>None\<close> as the first component says that the list ended while the loop was still
  running; \<^term>\<open>Some (Inr ())\<close> that the loop test found \<^verbatim>\<open>running\<close> false;
  \<^term>\<open>Some (Inl e)\<close> that \<^term>\<open>e\<close> was raised.
\<close>

fun record_loop ::
  "CameraProcess \<Rightarrow> step list \<Rightarrow> (exn + unit) option \<times> CameraProcess \<times> event list" where
  "record_loop self [] = (if \<not> running self then (Some (Inr ()), self, []) else (None, self, []))"
| "record_loop self (s # ss) =
     (if \<not> running self then (Some (Inr ()), self, [])
      else
        (case iteration self s of
           (Inl e, self1, evs) \<Rightarrow> (Some (Inl e), self1, evs)
         | (Inr _, self1, evs) \<Rightarrow>
             (case record_loop (if st_stop s then stop self1 else self1) ss of
                (r, self2, evs') \<Rightarrow> (r, self2, evs @ evs'))))"

record record_env =
  re_capture :: cv2_VideoCapture   \<comment> \<open>the object \<^verbatim>\<open>cv2.VideoCapture(device_id)\<close> returns\<close>
  re_first :: chunk_env            \<comment> \<open>the inputs of the first \<^verbatim>\<open>start_new_chunk\<close>\<close>
  re_steps :: "step list"

datatype status = Returned | Still_recording

definition record_body ::
  "CameraProcess \<Rightarrow> record_env \<Rightarrow> (exn + unit) option \<times> CameraProcess \<times> event list" where
  \<comment> \<open>the \<^verbatim>\<open>try\<close> block, lines 96 to 112\<close>
  "record_body self env =
     (let self1 = self\<lparr>cap := Some (re_capture env)\<rparr>;
          ev0 = [Ev_CapOpen (device_id self) (cap_isOpened (re_capture env))]
      in if \<not> cap_isOpened (re_capture env)
         then (Some (Inl (CameraOpenFailed (device_id self))), self1, ev0)
         else
           (case start_new_chunk self1 (re_first env) of
              (Inl e, self2, evs) \<Rightarrow> (Some (Inl e), self2, ev0 @ evs)
            | (Inr _, self2, evs) \<Rightarrow>
                (case record_loop self2 (re_steps env) of
                   (r, self3, evs') \<Rightarrow> (r, self3, ev0 @ evs @ evs'))))"

definition record_finally :: "CameraProcess \<Rightarrow> CameraProcess \<times> event list" where
  \<comment> \<open>the \<^verbatim>\<open>finally\<close> block, lines 117 to 120\<close>
  "record_finally self =
     (let (self1, evw) =
            (case writer self of
               None \<Rightarrow> (self, [])
             | Some w \<Rightarrow> (self\<lparr>writer := Some (VideoWriter_release w)\<rparr>,
                          [Ev_WriterRelease (w_ident w)
                             (vw_isOpened (w_writer (VideoWriter_release w)))]));
          (self2, evc) =
            (case cap self1 of
               None \<Rightarrow> (self1, [])
             | Some cp \<Rightarrow> (self1\<lparr>cap := Some (cp\<lparr>cap_isOpened := False\<rparr>)\<rparr>, [Ev_CapRelease]))
      in (self2, evw @ evc))"

definition record_run :: "CameraProcess \<Rightarrow> record_env \<Rightarrow> status \<times> CameraProcess \<times> event list" where
  "record_run self env =
     (case record_body self env of
        (None, self1, evs) \<Rightarrow> (Still_recording, self1, evs)
      | (Some r, self1, evs) \<Rightarrow>
          (let evx = (case r of
                        Inl e \<Rightarrow> [Ev_Log (Error_Recording (camera_id self1) e)]
                      | Inr _ \<Rightarrow> [])
           in case record_finally self1 of
                (self2, evf) \<Rightarrow> (Returned, self2, evs @ evx @ evf)))"

subsection \<open>Reading an event list\<close>

fun opened_ids :: "event list \<Rightarrow> nat list" where
  "opened_ids [] = []"
| "opened_ids (Ev_WriterOpen i f k b # es) = i # opened_ids es"
| "opened_ids (e # es) = opened_ids es"

fun released_ids :: "event list \<Rightarrow> nat list" where
  "released_ids [] = []"
| "released_ids (Ev_WriterRelease i b # es) = i # released_ids es"
| "released_ids (e # es) = released_ids es"

text \<open>
  The writers whose handle is open after a list of events, given those open before it,
  and the largest number of writers open at once while the events happen. A writer
  counts as open from its construction until a \<^verbatim>\<open>release()\<close> after which its handle
  reports \<^verbatim>\<open>isOpened()\<close> false; a release that leaves the handle open removes nothing.
\<close>

fun live :: "nat list \<Rightarrow> event list \<Rightarrow> nat list" where
  "live l [] = l"
| "live l (Ev_WriterOpen i f k b # es) = live (l @ [i]) es"
| "live l (Ev_WriterRelease i b # es) = live (if b then l else removeAll i l) es"
| "live l (e # es) = live l es"

fun peak :: "nat list \<Rightarrow> event list \<Rightarrow> nat" where
  "peak l [] = length l"
| "peak l (e # es) = max (length l) (peak (live l [e]) es)"

fun release_closes :: "event \<Rightarrow> bool" where
  \<comment> \<open>if the event is a \<^verbatim>\<open>release()\<close>, the handle is closed after it\<close>
  "release_closes (Ev_WriterRelease i b) = (\<not> b)"
| "release_closes e = True"

fun is_open :: "event \<Rightarrow> bool" where
  "is_open (Ev_WriterOpen i f k b) = True"
| "is_open e = False"

fun is_cleanup :: "event \<Rightarrow> bool" where
  "is_cleanup (Ev_Cleanup d d') = True"
| "is_cleanup e = False"

text \<open>
  \<^term>\<open>cleanup_after_open prev es\<close>: every \<^term>\<open>Ev_Cleanup\<close> of \<^term>\<open>es\<close> comes directly after
  an \<^term>\<open>Ev_WriterOpen\<close>; \<^term>\<open>prev\<close> says whether the event before \<^term>\<open>es\<close> was one.
\<close>

fun cleanup_after_open :: "bool \<Rightarrow> event list \<Rightarrow> bool" where
  "cleanup_after_open prev [] = True"
| "cleanup_after_open prev (e # es) =
     ((if is_cleanup e then prev else True) \<and> cleanup_after_open (is_open e) es)"

subsection \<open>class MultiCameraSystem: configuration\<close>

text \<open>
  The configuration is what \<^verbatim>\<open>json.load\<close> returns, read through the keys the program
  uses: a key may be absent, a value present has the type the program expects of it.
  The whole configuration is \<^term>\<open>None\<close> when \<^verbatim>\<open>open\<close> or \<^verbatim>\<open>json.load\<close> raises (the file is
  missing or is not JSON).
\<close>

record cam_config =
  cc_id :: "string option"
  cc_device_id :: "int option"
  cc_max_storage_gb :: "int option"
  cc_chunk_duration_mins :: "int option"

record config =
  cf_base_storage_dir :: "path option"
  cf_cameras :: "cam_config list option"

type_synonym cameras = "(string \<times> CameraProcess) list"

fun dict_set :: "string \<Rightarrow> CameraProcess \<Rightarrow> cameras \<Rightarrow> cameras" where
  \<comment> \<open>\<^verbatim>\<open>self.cameras[camera_id] = ...\<close> on a dictionary that keeps insertion order\<close>
  "dict_set k v [] = [(k, v)]"
| "dict_set k v ((k', v') # kvs) =
     (if k = k' then (k, v) # kvs else (k', v') # dict_set k v kvs)"

definition default_base_dir :: path where
  "default_base_dir = [''~'', ''Library'', ''Application Support'', ''SecurityCam'']"

fun load_cameras ::
  "(path \<Rightarrow> bool) \<Rightarrow> path \<Rightarrow> cam_config list \<Rightarrow> cameras \<Rightarrow> exn + cameras" where
  \<comment> \<open>the \<^verbatim>\<open>for\<close> loop of lines 153 to 161\<close>
  "load_cameras mkdir_ok base_dir [] cams = Inr cams"
| "load_cameras mkdir_ok base_dir (cc # ccs) cams =
     (case cc_id cc of
        None \<Rightarrow> Inl (KeyError ''id'')
      | Some cam_id \<Rightarrow>
         (case cc_device_id cc of
            None \<Rightarrow> Inl (KeyError ''device_id'')
          | Some dev_id \<Rightarrow>
             (case CameraProcess_init mkdir_ok cam_id dev_id base_dir
                     (case cc_max_storage_gb cc of None \<Rightarrow> 50 | Some g \<Rightarrow> g)
                     (case cc_chunk_duration_mins cc of None \<Rightarrow> 60 | Some m \<Rightarrow> m) of
                Inl e \<Rightarrow> Inl e
              | Inr cam \<Rightarrow> load_cameras mkdir_ok base_dir ccs (dict_set cam_id cam cams))))"

definition load_config_body :: "(path \<Rightarrow> bool) \<Rightarrow> config option \<Rightarrow> exn + cameras" where
  \<comment> \<open>the \<^verbatim>\<open>try\<close> block of \<^verbatim>\<open>load_config\<close>\<close>
  "load_config_body mkdir_ok file =
     (case file of
        None \<Rightarrow> Inl ConfigUnreadable
      | Some cfg \<Rightarrow>
         (let base_dir = (case cf_base_storage_dir cfg of
                            None \<Rightarrow> default_base_dir
                          | Some b \<Rightarrow> b)
          in case cf_cameras cfg of
               None \<Rightarrow> Inl (KeyError ''cameras'')
             | Some ccs \<Rightarrow> load_cameras mkdir_ok base_dir ccs []))"

text \<open>\<^term>\<open>Inl n\<close> is \<^verbatim>\<open>sys.exit(n)\<close>.\<close>

definition load_config :: "(path \<Rightarrow> bool) \<Rightarrow> config option \<Rightarrow> log list \<times> (int + cameras)" where
  "load_config mkdir_ok file =
     (case load_config_body mkdir_ok file of
        Inl e \<Rightarrow> ([Error_LoadConfig e], Inl 1)
      | Inr cams \<Rightarrow> ([], Inr cams))"

subsection \<open>class MultiCameraSystem: signals and run\<close>

record MultiCameraSystem =
  ms_cameras :: cameras
  ms_running :: bool

datatype action =
    Act_Log log
  | Act_StartThread string     \<comment> \<open>\<^verbatim>\<open>thread.start()\<close> of the camera's daemon thread\<close>
  | Act_Sleep                  \<comment> \<open>\<^verbatim>\<open>time.sleep(1)\<close>\<close>
  | Act_Stop string            \<comment> \<open>\<^verbatim>\<open>camera.stop()\<close>\<close>
  | Act_Join string            \<comment> \<open>\<^verbatim>\<open>thread.join()\<close>\<close>

definition MultiCameraSystem_init ::
  "(path \<Rightarrow> bool) \<Rightarrow> config option \<Rightarrow> log list \<times> (int + MultiCameraSystem)" where
  "MultiCameraSystem_init mkdir_ok file =
     (case load_config mkdir_ok file of
        (ls, Inl n) \<Rightarrow> (ls, Inl n)
      | (ls, Inr cams) \<Rightarrow> (ls, Inr \<lparr>ms_cameras = cams, ms_running = False\<rparr>))"

text \<open>
  The handler ends in \<^verbatim>\<open>sys.exit(0)\<close>: it returns the state, what it did, and the exit
  status \<^verbatim>\<open>SystemExit\<close> carries. Python runs it in the main thread, so the exception
  leaves \<^verbatim>\<open>run\<close> at the statement the signal interrupted.
\<close>

definition signal_handler :: "MultiCameraSystem \<Rightarrow> MultiCameraSystem \<times> action list \<times> int" where
  "signal_handler self =
     (self\<lparr>ms_running := False, ms_cameras := map (\<lambda>(k, c). (k, stop c)) (ms_cameras self)\<rparr>,
      Act_Log Info_ShutdownSignal # map (\<lambda>(k, c). Act_Stop k) (ms_cameras self),
      0)"

text \<open>
  One element per \<^verbatim>\<open>time.sleep(1)\<close> of the wait loop: the sleep passes quietly, or
  SIGINT or SIGTERM arrives during it.
\<close>

datatype tick = Quiet | Signal

fun wait_loop ::
  "MultiCameraSystem \<Rightarrow> tick list \<Rightarrow> (int + unit) option \<times> MultiCameraSystem \<times> action list" where
  \<comment> \<open>\<^verbatim>\<open>while self.running: time.sleep(1)\<close>; \<^term>\<open>None\<close>: still waiting when the ticks end\<close>
  "wait_loop self [] =
     (if \<not> ms_running self then (Some (Inr ()), self, []) else (None, self, []))"
| "wait_loop self (t # ts) =
     (if \<not> ms_running self then (Some (Inr ()), self, [])
      else
        (case t of
           Quiet \<Rightarrow> (case wait_loop self ts of (r, self1, as) \<Rightarrow> (r, self1, Act_Sleep # as))
         | Signal \<Rightarrow>
             (case signal_handler self of
                (self1, as, n) \<Rightarrow> (Some (Inl n), self1, Act_Sleep # as))))"

datatype process = Exited int | Waiting

definition run :: "MultiCameraSystem \<Rightarrow> tick list \<Rightarrow> process \<times> MultiCameraSystem \<times> action list" where
  "run self ticks =
     (let self1 = self\<lparr>ms_running := True\<rparr>;
          self2 = self1\<lparr>ms_cameras := map (\<lambda>(k, c). (k, c\<lparr>running := True\<rparr>)) (ms_cameras self1)\<rparr>;
          started = map (\<lambda>(k, c). Act_StartThread k) (ms_cameras self1)
      in case wait_loop self2 ticks of
           (None, self3, as) \<Rightarrow> (Waiting, self3, started @ as)
         | (Some (Inl n), self3, as) \<Rightarrow> (Exited n, self3, started @ as)
         | (Some (Inr _), self3, as) \<Rightarrow>
             (Exited 0, self3, started @ as @ map (\<lambda>(k, c). Act_Join k) (ms_cameras self3)))"

definition main_script :: "(path \<Rightarrow> bool) \<Rightarrow> config option \<Rightarrow> tick list \<Rightarrow> process \<times> action list" where
  \<comment> \<open>lines 231 and 232: \<^verbatim>\<open>system = MultiCameraSystem(...)\<close>, \<^verbatim>\<open>system.run()\<close>\<close>
  "main_script mkdir_ok file ticks =
     (case MultiCameraSystem_init mkdir_ok file of
        (ls, Inl n) \<Rightarrow> (Exited n, map Act_Log ls)
      | (ls, Inr system) \<Rightarrow>
          (case run system ticks of
             (p, system1, as) \<Rightarrow> (p, map Act_Log ls @ as)))"

subsection \<open>Example data\<close>

text \<open>
  A camera configured with \<^verbatim>\<open>max_storage_gb = 1\<close> whose active chunk is \<^verbatim>\<open>c.mp4\<close>, and some
  states of its directory. \<^term>\<open>chunk n m sz\<close> is an ordinary file: \<^verbatim>\<open>stat\<close> and
  \<^verbatim>\<open>unlink\<close> succeed on it.
\<close>

definition chunk :: "string \<Rightarrow> int \<Rightarrow> int \<Rightarrow> dirent" where
  "chunk n m sz = \<lparr>d_name = n, d_mtime = m, d_size = sz, d_stat_ok = True, d_unlink_ok = True\<rparr>"

definition example_camera :: CameraProcess where
  "example_camera =
     \<lparr>camera_id = ''cam1'', device_id = 0, storage_dir = [''rec'', ''cam1''],
      max_storage_bytes = 1 * 1024 * 1024 * 1024, chunk_duration_mins = 60,
      cap = Some \<lparr>cap_isOpened = True, cap_width = 640, cap_height = 480, cap_fps = 30\<rparr>,
      writer = Some (VideoWriter_init (\<lambda>k. True) 2 ''rec/cam1/c.mp4'' 30 (640, 480)),
      current_file = Some [''rec'', ''cam1'', ''c.mp4''],
      chunk_start_time = Some 7200, running = True, writers_made = 3\<rparr>"

definition store_abc :: dir where
  \<comment> \<open>three chunks of 500 MB and a file that is not a chunk\<close>
  "store_abc = [chunk ''c.mp4'' 300 500000000, chunk ''a.mp4'' 100 500000000,
                chunk ''notes.txt'' 50 2000000000, chunk ''b.mp4'' 200 500000000]"

definition store_pressure :: dir where
  \<comment> \<open>the active chunk alone is larger than the quota\<close>
  "store_pressure = [chunk ''b.mp4'' 200 500000000, chunk ''c.mp4'' 300 2000000000]"

definition store_skewed :: dir where
  \<comment> \<open>the active chunk fits the quota but carries an older modification time\<close>
  "store_skewed = [chunk ''c.mp4'' 100 600000000, chunk ''b.mp4'' 200 600000000]"

definition store_locked :: dir where
  \<comment> \<open>the oldest chunk cannot be unlinked\<close>
  "store_locked = [(chunk ''a.mp4'' 100 800000000)\<lparr>d_unlink_ok := False\<rparr>,
                   chunk ''b.mp4'' 200 800000000, chunk ''c.mp4'' 300 10000000]"

definition store_locked2 :: dir where
  \<comment> \<open>the second oldest chunk cannot be unlinked\<close>
  "store_locked2 = [chunk ''a.mp4'' 100 800000000,
                    (chunk ''b.mp4'' 200 1200000000)\<lparr>d_unlink_ok := False\<rparr>,
                    chunk ''c.mp4'' 300 10000000]"

text \<open>
  A camera as \<^verbatim>\<open>load_config\<close> and \<^verbatim>\<open>run\<close> hand it to its thread, a capture device that
  opens, and two runs of \<^verbatim>\<open>record\<close>: one in which the encoder raises on the first
  frame, one with a rotation after an hour and a stop request during the third frame.
\<close>

definition webcam :: cv2_VideoCapture where
  "webcam = \<lparr>cap_isOpened = True, cap_width = 640, cap_height = 480, cap_fps = 30\<rparr>"

definition fresh_camera :: CameraProcess where
  "fresh_camera =
     \<lparr>camera_id = ''cam1'', device_id = 0, storage_dir = [''rec'', ''cam1''],
      max_storage_bytes = 1 * 1024 * 1024 * 1024, chunk_duration_mins = 60,
      cap = None, writer = None, current_file = None, chunk_start_time = None,
      running = True, writers_made = 0\<rparr>"

definition good_chunk :: "string \<Rightarrow> int \<Rightarrow> chunk_env" where
  "good_chunk ts t = \<lparr>ce_timestamp = ts, ce_codec_ok = (\<lambda>k. True), ce_time = t\<rparr>"

definition frame :: "int \<Rightarrow> step" where
  "frame now = \<lparr>st_read = True, st_write = Backend_writes, st_now = now,
                st_chunk = good_chunk ''2024-01-01_01-00-01'' now, st_dir = store_abc,
                st_stop = False\<rparr>"

definition env_write_raises :: record_env where
  "env_write_raises =
     \<lparr>re_capture = webcam, re_first = good_chunk ''2024-01-01_00-00-00'' 0,
      re_steps = [(frame 10)\<lparr>st_write := Backend_raises\<rparr>, frame 20]\<rparr>"

definition env_rotation :: record_env where
  "env_rotation =
     \<lparr>re_capture = webcam, re_first = good_chunk ''2024-01-01_00-00-00'' 0,
      re_steps = [frame 10, frame 3601, (frame 3700)\<lparr>st_stop := True\<rparr>, frame 3800]\<rparr>"

text \<open>Two configuration files: two cameras, and an empty camera list.\<close>

definition two_cameras :: config where
  "two_cameras =
     \<lparr>cf_base_storage_dir = Some [''rec''],
      cf_cameras = Some [\<lparr>cc_id = Some ''cam1'', cc_device_id = Some 0,
                           cc_max_storage_gb = Some 1, cc_chunk_duration_mins = None\<rparr>,
                         \<lparr>cc_id = Some ''cam2'', cc_device_id = Some 1,
                           cc_max_storage_gb = None, cc_chunk_duration_mins = Some 30\<rparr>]\<rparr>"

definition no_cameras :: config where
  "no_cameras = \<lparr>cf_base_storage_dir = None, cf_cameras = Some []\<rparr>"

section \<open>Unfolding rules for the examples\<close>

lemmas store_examples =
  chunk_def example_camera_def store_abc_def store_pressure_def store_skewed_def
  store_locked_def store_locked2_def

lemmas store_defs =
  cleanup_old_files_def glob_mp4_def is_mp4_def suffix_to_prefix stat_all_def unlink_def

lemmas worker_examples =
  webcam_def fresh_camera_def good_chunk_def frame_def env_write_raises_def env_rotation_def

lemmas worker_defs =
  record_run_def record_body_def record_finally_def iteration_def start_new_chunk_def
  VideoWriter_init_def VideoWriter_write_def VideoWriter_release_def cv2_VideoWriter_new_def
  cv2_write_def cv2_release_def stop_def Let_def

lemmas supervisor_defs =
  main_script_def MultiCameraSystem_init_def load_config_def load_config_body_def
  CameraProcess_init_def run_def signal_handler_def stop_def default_base_dir_def Let_def

lemma fresh_camera_constructed:
  "CameraProcess_init (\<lambda>p. True) ''cam1'' 0 [''rec''] 1 60 = Inr (fresh_camera\<lparr>running := False\<rparr>)"
  by (simp add: CameraProcess_init_def fresh_camera_def)

section \<open>The chunk store: cleanup_old_files\<close>

subsection \<open>Auxiliary facts\<close>

lemma stat_all_ok: "\<forall>f\<in>set fs. d_stat_ok f \<Longrightarrow> stat_all fs = Inr ()"
  by (auto simp: stat_all_def find_None_iff split: option.splits)

lemma distinct_names_sorted:
  "distinct (map d_name d) \<Longrightarrow> distinct (map d_name (sort_key d_mtime (glob_mp4 d)))"
proof -
  assume a: "distinct (map d_name d)"
  have "distinct (map d_name (glob_mp4 d))"
    unfolding glob_mp4_def using a by (rule distinct_map_filter)
  moreover have "mset (map d_name (sort_key d_mtime (glob_mp4 d))) = mset (map d_name (glob_mp4 d))"
    by simp
  ultimately show ?thesis by (metis mset_eq_imp_distinct_iff)
qed

lemma glob_filter: "glob_mp4 (filter P d) = filter P (glob_mp4 d)"
  by (auto simp: glob_mp4_def intro: filter_cong)

lemma evict_dir_Cons:
  "fst (snd (evict c t (f # fs) d)) =
     (if t > max_storage_bytes c \<and> d_stat_ok f \<and> d_unlink_ok f
      then fst (snd (evict c (t - d_size f) fs (unlink (d_name f) d))) else d)"
  by (simp add: Let_def split: prod.splits)

text \<open>When every candidate can be read and removed, the loop removes a prefix of
  \<^verbatim>\<open>video_files\<close> and stops with the list exhausted or the total within the quota.\<close>

lemma evict_ok:
  "\<forall>f\<in>set fs. d_stat_ok f \<and> d_unlink_ok f \<Longrightarrow>
   \<exists>k\<le>length fs. evict c t fs d =
       (Inr (), filter (\<lambda>f. d_name f \<notin> d_name ` set (take k fs)) d,
        map (\<lambda>f. Info_Removing (camera_id c) (d_name f)) (take k fs))
     \<and> (k = length fs \<or> t - sum_list (map d_size (take k fs)) \<le> max_storage_bytes c)"
proof (induction fs arbitrary: t d)
  case Nil
  then show ?case by simp
next
  case (Cons f fs)
  show ?case
  proof (cases "t > max_storage_bytes c")
    case False
    then show ?thesis by (intro exI[of _ 0]) simp
  next
    case True
    from Cons.prems have ok: "\<forall>f\<in>set fs. d_stat_ok f \<and> d_unlink_ok f"
      and f: "d_stat_ok f" "d_unlink_ok f" by auto
    from Cons.IH[OF ok, of "t - d_size f" "unlink (d_name f) d"] obtain k where
      k: "k \<le> length fs"
      "evict c (t - d_size f) fs (unlink (d_name f) d) =
       (Inr (), filter (\<lambda>g. d_name g \<notin> d_name ` set (take k fs)) (unlink (d_name f) d),
        map (\<lambda>f. Info_Removing (camera_id c) (d_name f)) (take k fs))"
      "k = length fs \<or> t - d_size f - sum_list (map d_size (take k fs)) \<le> max_storage_bytes c"
      by blast
    show ?thesis
      apply (intro exI[of _ "Suc k"])
      using k True f by (auto simp: unlink_def Let_def intro: filter_cong)
  qed
qed

lemma remaining_mset:
  assumes "distinct (map d_name vf)" "mset vf = mset g"
  shows "mset (filter (\<lambda>f. d_name f \<notin> d_name ` set (take k vf)) g) = mset (drop k vf)"
proof -
  let ?P = "\<lambda>f. d_name f \<notin> d_name ` set (take k vf)"
  have split: "mset vf = mset (take k vf) + mset (drop k vf)"
    by (metis append_take_drop_id mset_append)
  have e1: "filter ?P (take k vf) = []" by (auto simp: filter_empty_conv)
  have e2: "filter ?P (drop k vf) = drop k vf"
  proof -
    have "distinct (map d_name (take k vf) @ map d_name (drop k vf))"
      using assms(1) by (metis append_take_drop_id map_append)
    then have "\<forall>x\<in>set (drop k vf). ?P x" by auto
    then show ?thesis by (simp add: filter_id_conv)
  qed
  have "mset (filter ?P g) = filter_mset ?P (mset vf)" using assms(2) by simp
  also have "\<dots> = mset (filter ?P (take k vf)) + mset (filter ?P (drop k vf))"
    by (simp only: split filter_union_mset mset_filter)
  finally show ?thesis by (simp only: e1 e2 mset.simps add_0_left)
qed

text \<open>Entries whose names are not among the candidates stay in the directory.\<close>

lemma evict_keeps:
  "a \<in> set d \<Longrightarrow> \<forall>f\<in>set fs. d_name f \<noteq> d_name a \<Longrightarrow> a \<in> set (fst (snd (evict c t fs d)))"
proof (induction fs arbitrary: t d)
  case Nil
  then show ?case by simp
next
  case (Cons f fs)
  from Cons.prems have "a \<in> set (unlink (d_name f) d)" by (auto simp: unlink_def)
  with Cons show ?case by (simp add: evict_dir_Cons del: evict.simps)
qed

lemma evict_last_kept:
  "a \<in> set d \<Longrightarrow> \<forall>f\<in>set xs. d_name f \<noteq> d_name a \<Longrightarrow>
   t = sum_list (map d_size (xs @ [a])) \<Longrightarrow> d_size a \<le> max_storage_bytes c \<Longrightarrow>
   a \<in> set (fst (snd (evict c t (xs @ [a]) d)))"
proof (induction xs arbitrary: t d)
  case Nil
  then show ?case by simp
next
  case (Cons f xs)
  from Cons.prems have "a \<in> set (unlink (d_name f) d)" by (auto simp: unlink_def)
  from Cons.IH[OF this, of "t - d_size f"] Cons.prems
  show ?case by (simp add: evict_dir_Cons del: evict.simps)
qed

lemma sorted_last_max:
  assumes "sorted (map k vf)" "a \<in> set vf" "\<forall>f\<in>set vf. f \<noteq> a \<longrightarrow> k f < (k a :: int)"
  shows "vf = butlast vf @ [a]"
proof -
  from assms(2) have ne: "vf \<noteq> []" by auto
  have "last vf = a"
  proof (rule ccontr)
    assume n: "last vf \<noteq> a"
    have "last vf \<in> set vf" using ne by simp
    with n assms(3) have lt: "k (last vf) < k a" by blast
    from assms(2) obtain i where i: "i < length vf" "vf ! i = a" by (auto simp: in_set_conv_nth)
    have "k (vf ! i) \<le> k (vf ! (length vf - 1))"
      using assms(1) i(1)
      by (auto simp: sorted_iff_nth_mono dest!: spec[of _ i] spec[of _ "length vf - 1"])
    then show False using lt i(2) ne by (simp add: last_conv_nth)
  qed
  then show ?thesis using ne by (metis append_butlast_last_id)
qed

text \<open>A candidate that cannot be unlinked ends the loop with the exception.\<close>

lemma evict_stops:
  "\<forall>g\<in>set pre. d_stat_ok g \<and> d_unlink_ok g \<Longrightarrow> d_stat_ok f \<Longrightarrow> \<not> d_unlink_ok f \<Longrightarrow>
   \<forall>j\<le>length pre. t - sum_list (map d_size (take j pre)) > max_storage_bytes c \<Longrightarrow>
   evict c t (pre @ f # post) d =
     (Inl (UnlinkError (d_name f)), filter (\<lambda>g. d_name g \<notin> d_name ` set pre) d,
      map (\<lambda>g. Info_Removing (camera_id c) (d_name g)) (pre @ [f]))"
proof (induction pre arbitrary: t d)
  case Nil
  then show ?case by simp
next
  case (Cons g pre)
  from Cons.prems(4) have t: "t > max_storage_bytes c" by (auto dest: spec[of _ 0])
  have "\<forall>j\<le>length pre. t - d_size g - sum_list (map d_size (take j pre)) > max_storage_bytes c"
  proof (intro allI impI)
    fix j assume "j \<le> length pre"
    with Cons.prems(4)
    have "t - sum_list (map d_size (take (Suc j) (g # pre))) > max_storage_bytes c"
      by (auto simp del: take_Suc_Cons)
    then show "t - d_size g - sum_list (map d_size (take j pre)) > max_storage_bytes c" by simp
  qed
  from Cons.IH[OF _ Cons.prems(2,3) this, of "unlink (d_name g) d"] Cons.prems(1) t
  show ?case by (auto simp: Let_def unlink_def intro: filter_cong)
qed

text \<open>The loop and the entries the pattern does not match.\<close>

lemma evict_other_names:
  "\<forall>f\<in>set fs. Q (d_name f) \<Longrightarrow>
   filter (\<lambda>f. \<not> Q (d_name f)) (fst (snd (evict c t fs d))) = filter (\<lambda>f. \<not> Q (d_name f)) d"
proof (induction fs arbitrary: t d)
  case Nil
  then show ?case by simp
next
  case (Cons f fs)
  have "filter (\<lambda>f. \<not> Q (d_name f)) (unlink (d_name f) d) = filter (\<lambda>f. \<not> Q (d_name f)) d"
    using Cons.prems by (auto simp: unlink_def intro: filter_cong)
  with Cons show ?case by (simp add: evict_dir_Cons del: evict.simps)
qed

lemma evict_restrict:
  "\<forall>f\<in>set fs. Q (d_name f) \<Longrightarrow>
   evict c t fs (filter (\<lambda>f. Q (d_name f)) d) =
     (case evict c t fs d of (r, d', ls) \<Rightarrow> (r, filter (\<lambda>f. Q (d_name f)) d', ls))"
proof (induction fs arbitrary: t d)
  case Nil
  then show ?case by simp
next
  case (Cons f fs)
  have comm: "unlink n (filter (\<lambda>f. Q (d_name f)) d) = filter (\<lambda>f. Q (d_name f)) (unlink n d)" for n
    by (auto simp: unlink_def intro: filter_cong)
  from Cons show ?case by (simp add: Let_def comm split: prod.splits)
qed

subsection \<open>C1: the active chunk and the eviction pass\<close>

text \<open>
  \<^verbatim>\<open>cleanup_old_files\<close> does not know which file is being written: every name that
  matches \<^verbatim>\<open>*.mp4\<close> is a candidate, \<^verbatim>\<open>current_file\<close> included. With a finalized chunk of
  500 MB, an active chunk of 2 GB and a quota of 1 GiB the pass removes both.
\<close>

theorem eviction_deletes_active_chunk:
  "current_file example_camera = Some (storage_dir example_camera @ [''c.mp4''])
   \<and> ''c.mp4'' \<in> d_name ` set store_pressure
   \<and> cleanup_old_files example_camera store_pressure =
       ([], [Info_Removing ''cam1'' ''b.mp4'', Info_Removing ''cam1'' ''c.mp4''])"
  by (simp add: store_examples store_defs)

text \<open>
  C1, as the code has it. The active chunk is not deleted by the eviction pass when it
  is the newest chunk (every other \<^verbatim>\<open>*.mp4\<close> file of the directory has a strictly
  smaller modification time) and its own size does not exceed \<^verbatim>\<open>max_storage_bytes\<close>; this
  holds whatever \<^verbatim>\<open>stat\<close> and \<^verbatim>\<open>unlink\<close> do on the other files. Names in a directory are
  distinct.
\<close>

theorem active_chunk_survives:
  assumes dist: "distinct (map d_name d)"
    and act: "current_file c = Some (storage_dir c @ [d_name a])"
    and a: "a \<in> set d"
    and newest: "\<forall>f\<in>set (glob_mp4 d). f \<noteq> a \<longrightarrow> d_mtime f < d_mtime a"
    and fits: "d_size a \<le> max_storage_bytes c"
  shows "a \<in> set (fst (cleanup_old_files c d))"
proof (cases "stat_all (glob_mp4 d)")
  case (Inl e)
  then show ?thesis using a by (simp add: cleanup_old_files_def)
next
  case (Inr u)
  define vf where "vf = sort_key d_mtime (glob_mp4 d)"
  have res: "fst (cleanup_old_files c d) = fst (snd (evict c (sum_list (map d_size vf)) vf d))"
    using Inr by (simp add: cleanup_old_files_def vf_def Let_def split: prod.splits sum.splits)
  show ?thesis
  proof (cases "is_mp4 (d_name a)")
    case False
    have "\<forall>f\<in>set vf. d_name f \<noteq> d_name a" using False by (auto simp: vf_def glob_mp4_def)
    then show ?thesis unfolding res using a by (intro evict_keeps)
  next
    case True
    then have avf: "a \<in> set vf" using a by (simp add: vf_def glob_mp4_def)
    have "sorted (map d_mtime vf)" by (simp add: vf_def)
    moreover have "\<forall>f\<in>set vf. f \<noteq> a \<longrightarrow> d_mtime f < d_mtime a" using newest by (simp add: vf_def)
    ultimately have shape: "vf = butlast vf @ [a]" using avf by (intro sorted_last_max)
    have "distinct (map d_name vf)" using dist by (simp add: vf_def distinct_names_sorted)
    then have "distinct (map d_name (butlast vf) @ [d_name a])"
      using shape by (metis list.simps(8,9) map_append)
    then have "d_name a \<notin> set (map d_name (butlast vf))" by simp
    then have others: "\<forall>f\<in>set (butlast vf). d_name f \<noteq> d_name a"
      by (metis image_eqI list.set_map)
    have "a \<in> set (fst (snd (evict c (sum_list (map d_size (butlast vf @ [a]))) (butlast vf @ [a]) d)))"
      using a others fits by (intro evict_last_kept) simp_all
    then show ?thesis unfolding res using shape by simp
  qed
qed

theorem active_chunk_survives_witness:
  "distinct (map d_name store_abc)
   \<and> current_file example_camera = Some (storage_dir example_camera @ [d_name (chunk ''c.mp4'' 300 500000000)])
   \<and> d_size (chunk ''c.mp4'' 300 500000000) \<le> max_storage_bytes example_camera
   \<and> chunk ''c.mp4'' 300 500000000 \<in> set (fst (cleanup_old_files example_camera store_abc))"
  using active_chunk_survives[of store_abc example_camera "chunk ''c.mp4'' 300 500000000"]
  by (simp add: store_examples glob_mp4_def is_mp4_def suffix_to_prefix)

text \<open>
  Both conditions matter: an active chunk that fits the quota but is not the newest file
  is removed first.
\<close>

lemma active_chunk_deleted_when_older:
  "d_size (chunk ''c.mp4'' 100 600000000) \<le> max_storage_bytes example_camera
   \<and> cleanup_old_files example_camera store_skewed =
       ([chunk ''b.mp4'' 200 600000000], [Info_Removing ''cam1'' ''c.mp4''])"
  by (simp add: store_examples store_defs)

subsection \<open>C2: the result of the eviction pass\<close>

text \<open>
  C2. For every quota and every directory whose chunk files can be read and removed,
  \<^verbatim>\<open>cleanup_old_files\<close> removes a prefix of the chunk files in ascending order of
  modification time (the files removed, and the order of their removal as logged, are
  the first \<^term>\<open>k\<close> of the sorted list; none of them is younger than a chunk file that
  stays), and afterwards the sizes of the remaining chunk files sum to at most the quota
  or no chunk file remains, finalized or active.
\<close>

theorem cleanup_reaches_quota_oldest_first:
  assumes dist: "distinct (map d_name d)"
    and ok: "\<forall>f\<in>set (glob_mp4 d). d_stat_ok f \<and> d_unlink_ok f"
  shows "\<exists>k. let vf = sort_key d_mtime (glob_mp4 d);
                removed = take k vf;
                d' = fst (cleanup_old_files c d)
            in d' = filter (\<lambda>f. d_name f \<notin> d_name ` set removed) d
             \<and> snd (cleanup_old_files c d) = map (\<lambda>f. Info_Removing (camera_id c) (d_name f)) removed
             \<and> sorted (map d_mtime removed)
             \<and> (\<forall>x\<in>set removed. \<forall>y\<in>set (glob_mp4 d'). d_mtime x \<le> d_mtime y)
             \<and> (sum_list (map d_size (glob_mp4 d')) \<le> max_storage_bytes c \<or> glob_mp4 d' = [])"
proof -
  define vf where "vf = sort_key d_mtime (glob_mp4 d)"
  define t where "t = sum_list (map d_size vf)"
  have okvf: "\<forall>f\<in>set vf. d_stat_ok f \<and> d_unlink_ok f" using ok by (simp add: vf_def)
  from evict_ok[OF okvf, of c t d] obtain k where k: "k \<le> length vf"
    "evict c t vf d = (Inr (), filter (\<lambda>f. d_name f \<notin> d_name ` set (take k vf)) d,
        map (\<lambda>f. Info_Removing (camera_id c) (d_name f)) (take k vf))"
    "k = length vf \<or> t - sum_list (map d_size (take k vf)) \<le> max_storage_bytes c" by blast
  define d' where "d' = filter (\<lambda>f. d_name f \<notin> d_name ` set (take k vf)) d"
  have st: "stat_all (glob_mp4 d) = Inr ()" using ok by (intro stat_all_ok) simp
  have res: "cleanup_old_files c d = (d', map (\<lambda>f. Info_Removing (camera_id c) (d_name f)) (take k vf))"
    using k(2) st by (simp add: cleanup_old_files_def Let_def vf_def[symmetric] t_def[symmetric] d'_def)
  have srt: "sorted (map d_mtime vf)" by (simp add: vf_def)
  have ms: "mset (glob_mp4 d') = mset (drop k vf)"
    unfolding d'_def glob_filter
    by (rule remaining_mset) (use dist in \<open>simp_all add: vf_def distinct_names_sorted\<close>)
  have s1: "sorted (map d_mtime (take k vf))" using srt by (metis sorted_wrt_take take_map)
  have s2: "\<forall>x\<in>set (take k vf). \<forall>y\<in>set (glob_mp4 d'). d_mtime x \<le> d_mtime y"
  proof (intro ballI)
    fix x y assume x: "x \<in> set (take k vf)" and y: "y \<in> set (glob_mp4 d')"
    from y ms have y': "y \<in> set (drop k vf)" by (metis set_mset_mset)
    have "sorted (map d_mtime (take k vf) @ map d_mtime (drop k vf))"
      using srt by (metis append_take_drop_id map_append)
    then show "d_mtime x \<le> d_mtime y" using x y' by (auto simp: sorted_append)
  qed
  have sum: "sum_list (map d_size (glob_mp4 d')) = t - sum_list (map d_size (take k vf))"
  proof -
    have "sum_list (map d_size (glob_mp4 d')) = sum_list (map d_size (drop k vf))"
      using ms by (metis mset_map sum_mset_sum_list)
    moreover have "t = sum_list (map d_size (take k vf)) + sum_list (map d_size (drop k vf))"
      unfolding t_def by (metis append_take_drop_id map_append sum_list_append)
    ultimately show ?thesis by simp
  qed
  have s3: "sum_list (map d_size (glob_mp4 d')) \<le> max_storage_bytes c \<or> glob_mp4 d' = []"
    using k(3) sum ms by auto
  show ?thesis
    apply (rule exI[of _ k])
    unfolding Let_def vf_def[symmetric] res fst_conv snd_conv
    using s1 s2 s3 by (simp add: d'_def)
qed

theorem cleanup_reaches_quota_oldest_first_witness:
  "distinct (map d_name store_abc)
   \<and> list_all (\<lambda>f. d_stat_ok f \<and> d_unlink_ok f) (glob_mp4 store_abc)
   \<and> cleanup_old_files example_camera store_abc =
        ([chunk ''c.mp4'' 300 500000000, chunk ''notes.txt'' 50 2000000000,
          chunk ''b.mp4'' 200 500000000], [Info_Removing ''cam1'' ''a.mp4''])
   \<and> (\<exists>k. let vf = sort_key d_mtime (glob_mp4 store_abc);
                removed = take k vf;
                d' = fst (cleanup_old_files example_camera store_abc)
            in d' = filter (\<lambda>f. d_name f \<notin> d_name ` set removed) store_abc
             \<and> snd (cleanup_old_files example_camera store_abc) =
                 map (\<lambda>f. Info_Removing (camera_id example_camera) (d_name f)) removed
             \<and> sorted (map d_mtime removed)
             \<and> (\<forall>x\<in>set removed. \<forall>y\<in>set (glob_mp4 d'). d_mtime x \<le> d_mtime y)
             \<and> (sum_list (map d_size (glob_mp4 d')) \<le> max_storage_bytes example_camera
                 \<or> glob_mp4 d' = []))"
proof -
  have h1: "distinct (map d_name store_abc)" by (simp add: store_examples)
  have h2: "\<forall>f\<in>set (glob_mp4 store_abc). d_stat_ok f \<and> d_unlink_ok f"
    by (simp add: store_examples glob_mp4_def)
  have r: "cleanup_old_files example_camera store_abc =
        ([chunk ''c.mp4'' 300 500000000, chunk ''notes.txt'' 50 2000000000,
          chunk ''b.mp4'' 200 500000000], [Info_Removing ''cam1'' ''a.mp4''])"
    by (simp add: store_examples store_defs)
  from cleanup_reaches_quota_oldest_first[OF h1 h2, of example_camera] h1 h2 r
  show ?thesis by (simp only: list_all_iff simp_thms)
qed

subsection \<open>C3: a deletion that fails\<close>

text \<open>
  The \<^verbatim>\<open>try\<close> of \<^verbatim>\<open>cleanup_old_files\<close> encloses the whole loop. When the oldest chunk
  cannot be unlinked the pass logs the error and is over: the next-oldest chunk is not
  tried, although the total (1.61 GB) is still above the quota of 1 GiB.
\<close>

theorem deletion_failure_ends_pass:
  "cleanup_old_files example_camera store_locked =
     (store_locked,
      [Info_Removing ''cam1'' ''a.mp4'', Error_Cleanup ''cam1'' (UnlinkError ''a.mp4'')])
   \<and> chunk ''b.mp4'' 200 800000000 \<in> set (fst (cleanup_old_files example_camera store_locked))
   \<and> sum_list (map d_size (glob_mp4 (fst (cleanup_old_files example_camera store_locked))))
       > max_storage_bytes example_camera"
  by (simp add: store_examples store_defs)

text \<open>
  C3, as the code has it. If the loop reaches a candidate whose \<^verbatim>\<open>unlink\<close> fails (the
  older candidates were removed and the total was above the quota each time), the pass
  logs the failure and ends there: exactly the older candidates are gone, the failing
  one and every younger one stay, and \<^verbatim>\<open>cleanup_old_files\<close> returns normally, its last
  log line the error.
\<close>

theorem cleanup_ends_at_failed_unlink:
  assumes vf: "vf = sort_key d_mtime (glob_mp4 d)"
    and st: "\<forall>f\<in>set vf. d_stat_ok f"
    and k: "k < length vf"
    and fail: "\<not> d_unlink_ok (vf ! k)"
    and before: "\<forall>j<k. d_unlink_ok (vf ! j)"
    and over: "\<forall>j\<le>k. sum_list (map d_size (drop j vf)) > max_storage_bytes c"
  shows "cleanup_old_files c d =
           (filter (\<lambda>f. d_name f \<notin> d_name ` set (take k vf)) d,
            map (\<lambda>f. Info_Removing (camera_id c) (d_name f)) (take (Suc k) vf)
              @ [Error_Cleanup (camera_id c) (UnlinkError (d_name (vf ! k)))])"
proof -
  have sa: "stat_all (glob_mp4 d) = Inr ()" using st by (intro stat_all_ok) (simp add: vf)
  have split: "vf = take k vf @ vf ! k # drop (Suc k) vf" using k by (rule id_take_nth_drop)
  have p1: "\<forall>g\<in>set (take k vf). d_stat_ok g \<and> d_unlink_ok g"
  proof
    fix g assume "g \<in> set (take k vf)"
    then obtain j where "j < k" "j < length vf" "g = vf ! j" using k by (auto simp: in_set_conv_nth)
    then show "d_stat_ok g \<and> d_unlink_ok g" using st before by auto
  qed
  have p2: "d_stat_ok (vf ! k)" using st k by simp
  have p4: "\<forall>j\<le>length (take k vf).
      sum_list (map d_size vf) - sum_list (map d_size (take j (take k vf))) > max_storage_bytes c"
  proof (intro allI impI)
    fix j assume "j \<le> length (take k vf)"
    then have j: "j \<le> k" by simp
    then have "take j (take k vf) = take j vf" by (simp add: min_def)
    moreover have "sum_list (map d_size vf) =
        sum_list (map d_size (take j vf)) + sum_list (map d_size (drop j vf))"
      by (metis append_take_drop_id map_append sum_list_append)
    ultimately show "sum_list (map d_size vf) - sum_list (map d_size (take j (take k vf)))
        > max_storage_bytes c"
      using over j by simp
  qed
  have ev: "evict c (sum_list (map d_size vf)) vf d =
     (Inl (UnlinkError (d_name (vf ! k))),
      filter (\<lambda>g. d_name g \<notin> d_name ` set (take k vf)) d,
      map (\<lambda>g. Info_Removing (camera_id c) (d_name g)) (take k vf @ [vf ! k]))"
    using evict_stops[OF p1 p2 fail p4, of "drop (Suc k) vf" d] split by simp
  have "take (Suc k) vf = take k vf @ [vf ! k]" using k by (rule take_Suc_conv_app_nth)
  then show ?thesis using ev sa by (simp add: cleanup_old_files_def Let_def vf[symmetric])
qed

theorem cleanup_ends_at_failed_unlink_witness:
  "cleanup_old_files example_camera store_locked2 =
     ([(chunk ''b.mp4'' 200 1200000000)\<lparr>d_unlink_ok := False\<rparr>, chunk ''c.mp4'' 300 10000000],
      [Info_Removing ''cam1'' ''a.mp4'', Info_Removing ''cam1'' ''b.mp4'',
       Error_Cleanup ''cam1'' (UnlinkError ''b.mp4'')])"
proof -
  have vf: "store_locked2 = sort_key d_mtime (glob_mp4 store_locked2)"
    by (simp add: store_examples store_defs)
  have st: "\<forall>f\<in>set store_locked2. d_stat_ok f" by (simp add: store_examples)
  have k: "(1::nat) < length store_locked2" by (simp add: store_examples)
  have fail: "\<not> d_unlink_ok (store_locked2 ! 1)" by (simp add: store_examples)
  have before: "\<forall>j<(1::nat). d_unlink_ok (store_locked2 ! j)" by (simp add: store_examples)
  have over: "\<forall>j\<le>(1::nat). sum_list (map d_size (drop j store_locked2)) > max_storage_bytes example_camera"
  proof (intro allI impI)
    fix j :: nat assume "j \<le> 1"
    then consider "j = 0" | "j = 1" by linarith
    then show "sum_list (map d_size (drop j store_locked2)) > max_storage_bytes example_camera"
      by cases (simp_all add: store_examples)
  qed
  from cleanup_ends_at_failed_unlink[OF vf st k fail before over]
  show ?thesis by (simp add: store_examples)
qed

subsection \<open>C10: files that are not chunks\<close>

text \<open>
  C10. The eviction pass considers only the entries whose name matches \<^verbatim>\<open>*.mp4\<close>. The
  other entries of the directory are all still there afterwards, and they count for
  nothing: what the pass does to the chunk files and what it logs are what it would do
  and log in a directory holding the chunk files alone.
\<close>

theorem cleanup_ignores_other_files:
  "filter (\<lambda>f. \<not> is_mp4 (d_name f)) (fst (cleanup_old_files c d)) = filter (\<lambda>f. \<not> is_mp4 (d_name f)) d
   \<and> glob_mp4 (fst (cleanup_old_files c d)) = fst (cleanup_old_files c (glob_mp4 d))
   \<and> snd (cleanup_old_files c d) = snd (cleanup_old_files c (glob_mp4 d))"
proof -
  define vf where "vf = sort_key d_mtime (glob_mp4 d)"
  have gg: "glob_mp4 (glob_mp4 d) = glob_mp4 d" by (simp add: glob_mp4_def)
  have mp4: "\<forall>f\<in>set vf. is_mp4 (d_name f)" by (simp add: vf_def glob_mp4_def)
  note r = evict_restrict[OF mp4, of c _ d, folded glob_mp4_def]
  note o = evict_other_names[OF mp4, of c _ d]
  show ?thesis
  proof (cases "stat_all (glob_mp4 d)")
    case (Inl e)
    then show ?thesis by (simp add: cleanup_old_files_def gg)
  next
    case (Inr u)
    then show ?thesis using o[of "sum_list (map d_size vf)"]
      by (simp add: cleanup_old_files_def gg Let_def vf_def[symmetric] r split: prod.splits sum.splits)
        (auto simp: glob_mp4_def)
  qed
qed

theorem cleanup_ignores_other_files_witness:
  "chunk ''notes.txt'' 50 2000000000 \<in> set (fst (cleanup_old_files example_camera store_abc))
   \<and> filter (\<lambda>f. \<not> is_mp4 (d_name f)) (fst (cleanup_old_files example_camera store_abc)) =
       [chunk ''notes.txt'' 50 2000000000]
   \<and> snd (cleanup_old_files example_camera store_abc) =
       snd (cleanup_old_files example_camera
             [chunk ''c.mp4'' 300 500000000, chunk ''a.mp4'' 100 500000000, chunk ''b.mp4'' 200 500000000])"
  using cleanup_ignores_other_files[of example_camera store_abc]
  by (simp add: store_examples store_defs)

section \<open>The recording worker: start_new_chunk and record\<close>

subsection \<open>Auxiliary facts about event lists\<close>

lemma opened_ids_append: "opened_ids (xs @ ys) = opened_ids xs @ opened_ids ys"
  by (induction xs rule: opened_ids.induct) simp_all

lemma released_ids_append: "released_ids (xs @ ys) = released_ids xs @ released_ids ys"
  by (induction xs rule: released_ids.induct) simp_all

lemma live_append: "live l (xs @ ys) = live (live l xs) ys"
  by (induction l xs rule: live.induct) simp_all

lemma peak_append: "peak l (xs @ ys) = max (peak l xs) (peak (live l xs) ys)"
proof (induction xs arbitrary: l)
  case Nil
  show ?case by (cases ys) simp_all
next
  case (Cons e es)
  have "live l (e # es) = live (live l [e]) es" using live_append[of l "[e]" es] by simp
  with Cons show ?case by (simp add: max.assoc)
qed

lemma peak_prefix: "length (live l (take k es)) \<le> peak l es"
proof (induction es arbitrary: l k)
  case Nil
  show ?case by simp
next
  case (Cons e es)
  show ?case
  proof (cases k)
    case 0
    then show ?thesis by simp
  next
    case (Suc k')
    have "live l (e # take k' es) = live (live l [e]) (take k' es)"
      using live_append[of l "[e]" "take k' es"] by simp
    with Cons[of "live l [e]" k'] Suc show ?thesis by simp
  qed
qed

lemma cleanup_after_open_append:
  "cleanup_after_open p (xs @ ys) =
     (cleanup_after_open p xs \<and> cleanup_after_open (if xs = [] then p else is_open (last xs)) ys)"
  by (induction xs arbitrary: p) auto

lemma cleanup_after_open_start:
  "ys = [] \<or> \<not> is_cleanup (hd ys) \<Longrightarrow> cleanup_after_open p ys = cleanup_after_open False ys"
  by (cases ys) auto

lemma logs_opened [simp]: "opened_ids (map Ev_Log ls) = []" by (induction ls) simp_all

lemma logs_released [simp]: "released_ids (map Ev_Log ls) = []" by (induction ls) simp_all

lemma logs_live [simp]: "live l (map Ev_Log ls) = l" by (induction ls) simp_all

lemma logs_peak [simp]: "peak l (map Ev_Log ls) = length l" by (induction ls) simp_all

lemma logs_cleanup [simp]: "cleanup_after_open p (map Ev_Log ls)" by (induction ls arbitrary: p) simp_all

lemma logs_no_cap [simp]: "count_list (map Ev_Log ls) Ev_CapRelease = 0" by (induction ls) simp_all

lemma count_list_append': "count_list (xs @ ys) x = count_list xs x + count_list ys x"
  by (induction xs) simp_all

lemma upt_join: "i \<le> j \<Longrightarrow> j \<le> k \<Longrightarrow> [i..<j] @ [j..<k] = [i..<(k::nat)]"
  by (metis le_Suc_ex upt_add_eq_append)

subsection \<open>Auxiliary facts about the loop\<close>

text \<open>With a capture object in place \<^verbatim>\<open>start_new_chunk\<close> cannot raise.\<close>

lemma start_new_chunk_ok:
  assumes "cap c = Some cp"
  shows "start_new_chunk c e =
     (Inr (),
      c\<lparr>writer := Some (VideoWriter_init (ce_codec_ok e) (writers_made c)
                   (path_str (storage_dir c @ [ce_timestamp e @ ''.mp4'']))
                   (cap_fps cp) (cap_width cp, cap_height cp)),
        current_file := Some (storage_dir c @ [ce_timestamp e @ ''.mp4'']),
        writers_made := Suc (writers_made c),
        chunk_start_time := Some (ce_time e)\<rparr>,
      (case writer c of None \<Rightarrow> [] | Some w \<Rightarrow> [Ev_WriterRelease (w_ident w) False])
      @ [Ev_WriterOpen (writers_made c)
           (path_str (storage_dir c @ [ce_timestamp e @ ''.mp4'']))
           (if ce_codec_ok e MP4V then MP4V else MJPG)
           (ce_codec_ok e MP4V \<or> ce_codec_ok e MJPG)])"
  using assms
  by (auto simp: start_new_chunk_def VideoWriter_init_def cv2_VideoWriter_new_def Let_def
      VideoWriter_release_def cv2_release_def split: option.splits)

text \<open>
  What one iteration, and then the loop, preserve: the capture object and the presence of
  a writer; the writers opened are numbered consecutively; each release but the last
  pending one matches an opening; never two writers are open; a cleanup follows an
  opening; the capture object is not released inside the loop.
\<close>

lemma iteration_inv:
  assumes "cap c = Some cp" "writer c = Some w" "iteration c s = (r, c', evs)"
  shows "cap c' = Some cp \<and> running c' = running c \<and> camera_id c' = camera_id c
       \<and> writers_made c \<le> writers_made c'
       \<and> opened_ids evs = [writers_made c ..< writers_made c']
       \<and> (\<exists>w'. writer c' = Some w'
              \<and> released_ids evs @ [w_ident w'] = w_ident w # opened_ids evs
              \<and> live [w_ident w] evs = [w_ident w'])
       \<and> peak [w_ident w] evs \<le> 1
       \<and> cleanup_after_open False evs
       \<and> (evs = [] \<or> \<not> is_cleanup (hd evs))
       \<and> count_list evs Ev_CapRelease = 0"
  using assms
  by (auto simp: iteration_def start_new_chunk_ok Let_def VideoWriter_init_def
      split: if_splits sum.splits option.splits prod.splits)

lemma record_loop_inv:
  assumes "cap c = Some cp" "writer c = Some w" "record_loop c ss = (r, c', evs)"
  shows "cap c' = Some cp \<and> camera_id c' = camera_id c
       \<and> writers_made c \<le> writers_made c'
       \<and> opened_ids evs = [writers_made c ..< writers_made c']
       \<and> (\<exists>w'. writer c' = Some w'
              \<and> released_ids evs @ [w_ident w'] = w_ident w # opened_ids evs
              \<and> live [w_ident w] evs = [w_ident w'])
       \<and> peak [w_ident w] evs \<le> 1
       \<and> cleanup_after_open False evs
       \<and> (evs = [] \<or> \<not> is_cleanup (hd evs))
       \<and> count_list evs Ev_CapRelease = 0"
  using assms
proof (induction ss arbitrary: c w r c' evs)
  case Nil
  then show ?case by (auto split: if_splits)
next
  case (Cons s ss)
  show ?case
  proof (cases "running c")
    case False
    with Cons.prems show ?thesis by auto
  next
    case True
    obtain r1 c1 evs1 where it: "iteration c s = (r1, c1, evs1)" by (cases "iteration c s") auto
    note i = iteration_inv[OF Cons.prems(1,2) it]
    from i obtain w1 where w1: "writer c1 = Some w1"
      "released_ids evs1 @ [w_ident w1] = w_ident w # opened_ids evs1"
      "live [w_ident w] evs1 = [w_ident w1]" by blast
    show ?thesis
    proof (cases r1)
      case (Inl e)
      with Cons.prems(3) True it have e: "c' = c1" "evs = evs1" by auto
      show ?thesis unfolding e using i by blast
    next
      case (Inr u)
      define c2 where "c2 = (if st_stop s then stop c1 else c1)"
      obtain r3 c3 evs3 where rl: "record_loop c2 ss = (r3, c3, evs3)"
        by (cases "record_loop c2 ss") auto
      have c2: "cap c2 = Some cp" "writer c2 = Some w1" "writers_made c2 = writers_made c1"
        "camera_id c2 = camera_id c1"
        using i w1 by (auto simp: c2_def stop_def)
      note l = Cons.IH[OF c2(1,2) rl]
      from l obtain w3 where w3: "writer c3 = Some w3"
        "released_ids evs3 @ [w_ident w3] = w_ident w1 # opened_ids evs3"
        "live [w_ident w1] evs3 = [w_ident w3]" by blast
      from Cons.prems(3) True it Inr rl have res: "c' = c3" "evs = evs1 @ evs3" "r = r3"
        by (auto simp: c2_def)
      have a: "opened_ids evs = [writers_made c ..< writers_made c']"
        using i l c2 by (simp add: res opened_ids_append upt_join)
      have b: "released_ids evs @ [w_ident w3] = w_ident w # opened_ids evs"
        using w1(2) w3(2) by (simp add: res released_ids_append opened_ids_append)
      have d: "live [w_ident w] evs = [w_ident w3]"
        using w1(3) w3(3) by (simp add: res live_append)
      have e: "peak [w_ident w] evs \<le> 1" using i l w1(3) by (simp add: res peak_append)
      have f: "cleanup_after_open False evs"
        using i l cleanup_after_open_start[of evs3] by (auto simp: res cleanup_after_open_append)
      have g: "evs = [] \<or> \<not> is_cleanup (hd evs)" using i l by (cases evs1) (auto simp: res)
      have h: "count_list evs Ev_CapRelease = 0" using i l by (simp add: res)
      show ?thesis using a b d e f g h i l c2 w3(1) by (simp add: res)
    qed
  qed
qed

text \<open>The loop ends when a read fails or a stop request arrives.\<close>

lemma record_loop_returns:
  "\<not> running c \<or> (\<exists>s\<in>set ss. \<not> st_read s \<or> st_stop s) \<Longrightarrow> cap c \<noteq> None \<Longrightarrow> fst (record_loop c ss) \<noteq> None"
proof (induction ss arbitrary: c)
  case Nil
  then show ?case by simp
next
  case (Cons s ss)
  show ?case
  proof (cases "running c")
    case False
    then show ?thesis by simp
  next
    case True
    obtain r1 c1 evs1 where it: "iteration c s = (r1, c1, evs1)" by (cases "iteration c s") auto
    show ?thesis
    proof (cases r1)
      case (Inl e)
      with it True show ?thesis by simp
    next
      case (Inr u)
      from Cons.prems(2) obtain cp where cp: "cap c = Some cp" by auto
      have rd: "st_read s" using it Inr cp by (auto simp: iteration_def split: if_splits)
      have capc1: "cap c1 \<noteq> None" "running c1 = running c"
        using it Inr cp
        by (auto simp: iteration_def start_new_chunk_ok Let_def
            split: if_splits sum.splits option.splits prod.splits)
      define c2 where "c2 = (if st_stop s then stop c1 else c1)"
      have "\<not> running c2 \<or> (\<exists>s\<in>set ss. \<not> st_read s \<or> st_stop s)"
        using Cons.prems(1) True rd by (auto simp: c2_def stop_def)
      moreover have "cap c2 \<noteq> None" using capc1 by (simp add: c2_def stop_def)
      ultimately have "fst (record_loop c2 ss) \<noteq> None" by (rule Cons.IH)
      moreover obtain r3 c3 evs3 where "record_loop c2 ss = (r3, c3, evs3)"
        by (cases "record_loop c2 ss") auto
      ultimately show ?thesis using it Inr True by (simp add: c2_def)
    qed
  qed
qed

lemma record_body_inv:
  assumes fresh: "writer self = None" and op: "cap_isOpened (re_capture env)"
    and rb: "record_body self env = (r, c', evs)"
  shows "(\<exists>cp. cap c' = Some cp) \<and> camera_id c' = camera_id self
       \<and> opened_ids evs = [writers_made self ..< writers_made c']
       \<and> (\<exists>w'. writer c' = Some w'
              \<and> released_ids evs @ [w_ident w'] = opened_ids evs
              \<and> live [] evs = [w_ident w'])
       \<and> peak [] evs \<le> 1
       \<and> cleanup_after_open False evs
       \<and> count_list evs Ev_CapRelease = 0
       \<and> ((\<not> running self \<or> (\<exists>s\<in>set (re_steps env). \<not> st_read s \<or> st_stop s)) \<longrightarrow> r \<noteq> None)"
proof -
  define c1 where "c1 = self\<lparr>cap := Some (re_capture env)\<rparr>"
  have cap1: "cap c1 = Some (re_capture env)" by (simp add: c1_def)
  note snc = start_new_chunk_ok[OF cap1, of "re_first env"]
  define w0 where "w0 = VideoWriter_init (ce_codec_ok (re_first env)) (writers_made c1)
                   (path_str (storage_dir c1 @ [ce_timestamp (re_first env) @ ''.mp4'']))
                   (cap_fps (re_capture env)) (cap_width (re_capture env), cap_height (re_capture env))"
  define c2 where "c2 = c1\<lparr>writer := Some w0,
        current_file := Some (storage_dir c1 @ [ce_timestamp (re_first env) @ ''.mp4'']),
        writers_made := Suc (writers_made c1),
        chunk_start_time := Some (ce_time (re_first env))\<rparr>"
  define ev1 where "ev1 = [Ev_CapOpen (device_id self) True, Ev_WriterOpen (writers_made c1)
           (path_str (storage_dir c1 @ [ce_timestamp (re_first env) @ ''.mp4'']))
           (if ce_codec_ok (re_first env) MP4V then MP4V else MJPG)
           (ce_codec_ok (re_first env) MP4V \<or> ce_codec_ok (re_first env) MJPG)]"
  obtain r3 c3 evs3 where rl: "record_loop c2 (re_steps env) = (r3, c3, evs3)"
    by (cases "record_loop c2 (re_steps env)") auto
  have w0: "w_ident w0 = writers_made self" by (simp add: w0_def VideoWriter_init_def c1_def Let_def)
  have c2: "cap c2 = Some (re_capture env)" "writer c2 = Some w0"
    "writers_made c2 = Suc (writers_made self)" "camera_id c2 = camera_id self"
    "running c2 = running self"
    by (simp_all add: c2_def c1_def)
  have wc1: "writer c1 = None" using fresh by (simp add: c1_def)
  have res: "r = r3" "c' = c3" "evs = ev1 @ evs3"
    using rb op fresh rl snc wc1
    by (simp_all add: record_body_def Let_def c1_def[symmetric] w0_def[symmetric] c2_def[symmetric] ev1_def)
  note l = record_loop_inv[OF c2(1,2) rl]
  from l obtain w3 where w3: "writer c3 = Some w3"
    "released_ids evs3 @ [w_ident w3] = w_ident w0 # opened_ids evs3"
    "live [w_ident w0] evs3 = [w_ident w3]" by blast
  have ret: "(\<not> running self \<or> (\<exists>s\<in>set (re_steps env). \<not> st_read s \<or> st_stop s)) \<longrightarrow> r \<noteq> None"
    using record_loop_returns[of c2 "re_steps env"] c2 rl by (auto simp: res)
  have op1: "opened_ids ev1 = [writers_made self]" "released_ids ev1 = []"
    "live [] ev1 = [writers_made self]" "peak [] ev1 \<le> 1" "cleanup_after_open False ev1"
    "count_list ev1 Ev_CapRelease = 0" "ev1 \<noteq> []" "\<not> is_cleanup (last ev1)"
    by (simp_all add: ev1_def c1_def)
  have a: "opened_ids evs = [writers_made self ..< writers_made c']"
    using l c2 op1 by (simp add: res opened_ids_append upt_conv_Cons)
  have b: "released_ids evs @ [w_ident w3] = opened_ids evs"
    using w3(2) op1 w0 by (simp add: res released_ids_append opened_ids_append)
  have d: "live [] evs = [w_ident w3]" using w3(3) op1 w0 by (simp add: res live_append)
  have e: "peak [] evs \<le> 1" using l op1 w0 by (simp add: res peak_append)
  have f: "cleanup_after_open False evs"
    using l op1 cleanup_after_open_start[of evs3] by (auto simp: res cleanup_after_open_append)
  have g: "count_list evs Ev_CapRelease = 0" using l op1 by (simp add: res)
  show ?thesis using a b d e f g ret l c2 w3(1) by (simp add: res)
qed

lemma record_body_not_opened:
  "\<not> cap_isOpened (re_capture env) \<Longrightarrow>
   record_body self env =
     (Some (Inl (CameraOpenFailed (device_id self))), self\<lparr>cap := Some (re_capture env)\<rparr>,
      [Ev_CapOpen (device_id self) False])"
  by (simp add: record_body_def Let_def)

lemma record_run_events:
  assumes fresh: "writer self = None"
  shows "peak [] (snd (snd (record_run self env))) \<le> 1
       \<and> cleanup_after_open False (snd (snd (record_run self env)))"
proof (cases "cap_isOpened (re_capture env)")
  case False
  show ?thesis
    using fresh by (simp add: record_run_def record_body_not_opened[OF False] record_finally_def)
next
  case True
  obtain r c' evs where rb: "record_body self env = (r, c', evs)"
    by (cases "record_body self env") auto
  note i = record_body_inv[OF fresh True rb]
  from i obtain cp w' where st: "cap c' = Some cp" "writer c' = Some w'"
    "live [] evs = [w_ident w']" by blast
  show ?thesis
  proof (cases r)
    case None
    with i show ?thesis by (simp add: record_run_def rb)
  next
    case (Some res)
    define evx where "evx = (case res of Inl e \<Rightarrow> [Ev_Log (Error_Recording (camera_id c') e)] | Inr _ \<Rightarrow> [])"
    have evx: "live l evx = l" "peak l evx = length l" "cleanup_after_open p evx"
      "evx = [] \<or> \<not> is_open (last evx)" for l p
      by (cases res; simp add: evx_def)+
    have run: "snd (snd (record_run self env)) =
         evs @ evx @ [Ev_WriterRelease (w_ident w') False, Ev_CapRelease]"
      using Some st
      by (simp add: record_run_def rb record_finally_def Let_def evx_def
          VideoWriter_release_def cv2_release_def)
    show ?thesis
      using i st evx
      by (simp add: run live_append peak_append cleanup_after_open_append)
  qed
qed

text \<open>Every \<^verbatim>\<open>release()\<close> the worker makes leaves the writer's handle closed.\<close>

lemma start_new_chunk_closes:
  "start_new_chunk c e = (r, c1, evs) \<Longrightarrow> list_all release_closes evs"
  by (auto simp: start_new_chunk_def Let_def VideoWriter_release_def cv2_release_def
      split: option.splits)

lemma iteration_closes:
  "iteration c s = (r, c1, evs) \<Longrightarrow> list_all release_closes evs"
  by (auto simp: iteration_def Let_def list_all_iff
      split: option.splits if_splits sum.splits prod.splits
      dest!: start_new_chunk_closes)

lemma record_loop_closes:
  "record_loop c ss = (r, c1, evs) \<Longrightarrow> list_all release_closes evs"
proof (induction ss arbitrary: c r c1 evs)
  case Nil
  then show ?case by (auto split: if_splits)
next
  case (Cons s ss)
  show ?case
  proof (cases "running c")
    case False
    with Cons.prems show ?thesis by auto
  next
    case True
    obtain r1 c2 evs1 where it: "iteration c s = (r1, c2, evs1)" by (cases "iteration c s") auto
    note i = iteration_closes[OF it]
    show ?thesis
    proof (cases r1)
      case (Inl e)
      with Cons.prems True it i show ?thesis by auto
    next
      case (Inr u)
      obtain r3 c3 evs3 where rl: "record_loop (if st_stop s then stop c2 else c2) ss = (r3, c3, evs3)"
        by (cases "record_loop (if st_stop s then stop c2 else c2) ss") auto
      from Cons.prems True it Inr rl have "evs = evs1 @ evs3" by auto
      with i Cons.IH[OF rl] show ?thesis by simp
    qed
  qed
qed

lemma record_run_closes: "list_all release_closes (snd (snd (record_run self env)))"
proof -
  obtain r c1 evs where rb: "record_body self env = (r, c1, evs)"
    by (cases "record_body self env") auto
  have b: "list_all release_closes evs"
  proof (cases "cap_isOpened (re_capture env)")
    case False
    with rb show ?thesis by (auto simp: record_body_def Let_def)
  next
    case True
    obtain r2 c2 evs2 where sn:
      "start_new_chunk (self\<lparr>cap := Some (re_capture env)\<rparr>) (re_first env) = (r2, c2, evs2)"
      by (cases "start_new_chunk (self\<lparr>cap := Some (re_capture env)\<rparr>) (re_first env)") auto
    note s = start_new_chunk_closes[OF sn]
    show ?thesis
    proof (cases r2)
      case (Inl e)
      with rb True sn s show ?thesis by (auto simp: record_body_def Let_def)
    next
      case (Inr u)
      obtain r3 c3 evs3 where rl: "record_loop c2 (re_steps env) = (r3, c3, evs3)"
        by (cases "record_loop c2 (re_steps env)") auto
      from rb True sn Inr rl have "evs = Ev_CapOpen (device_id self) True # evs2 @ evs3"
        by (auto simp: record_body_def Let_def)
      with s record_loop_closes[OF rl] show ?thesis by simp
    qed
  qed
  have f: "list_all release_closes (snd (record_finally c1))"
    by (auto simp: record_finally_def Let_def VideoWriter_release_def cv2_release_def
        split: option.splits)
  show ?thesis
    using b f by (auto simp: record_run_def rb Let_def split: option.splits sum.splits prod.splits)
qed

subsection \<open>C4: a frame that cannot be written\<close>

text \<open>
  The only \<^verbatim>\<open>try\<close> of \<^verbatim>\<open>record\<close> encloses the whole loop. When the encoder raises on the
  first frame, the error is logged and the method is over: the second frame is never
  read, although no read failed and nobody asked the worker to stop.
\<close>

theorem write_failure_stops_recording:
  "record_run fresh_camera env_write_raises =
     (Returned,
      fresh_camera\<lparr>cap := Some (webcam\<lparr>cap_isOpened := False\<rparr>),
        writer := Some \<lparr>w_ident = 0, w_writer =
            \<lparr>vw_filename = ''rec/cam1/2024-01-01_00-00-00.mp4'', vw_fourcc = MP4V, vw_fps = 30,
             vw_frame_size = (640, 480), vw_isOpened = False\<rparr>\<rparr>,
        current_file := Some [''rec'', ''cam1'', ''2024-01-01_00-00-00.mp4''],
        chunk_start_time := Some 0, writers_made := 1\<rparr>,
      [Ev_CapOpen 0 True, Ev_WriterOpen 0 ''rec/cam1/2024-01-01_00-00-00.mp4'' MP4V True,
       Ev_CapRead True, Ev_WriterWriteRaised 0,
       Ev_Log (Error_Recording ''cam1'' WriterError),
       Ev_WriterRelease 0 False, Ev_CapRelease])
   \<and> list_all st_read (re_steps env_write_raises)
   \<and> list_all (\<lambda>s. \<not> st_stop s) (re_steps env_write_raises)
   \<and> length (re_steps env_write_raises) = 2"
  by (simp add: worker_examples worker_defs)

text \<open>
  C4, as the code has it. For a frame that was read: if \<^verbatim>\<open>writer.write\<close> raises, the loop
  ends at once with that exception, whatever frames would follow; \<^verbatim>\<open>record\<close> then logs
  the exception once as a recording error and runs its \<^verbatim>\<open>finally\<close> block. If the writer
  loses the frame without raising, nothing is logged and the loop goes on with the next
  iteration (shown for an iteration without rotation).
\<close>

theorem write_failure_handling:
  "(running c \<longrightarrow> cap c = Some cp \<longrightarrow> writer c = Some w \<longrightarrow> st_read s \<longrightarrow>
      VideoWriter_write w (st_write s) = Inl e \<longrightarrow>
        record_loop c (s # ss) = (Some (Inl e), c, [Ev_CapRead True, Ev_WriterWriteRaised (w_ident w)]))
   \<and> (record_body c0 env = (Some (Inl e), c1, evs) \<longrightarrow>
        (\<exists>c2 evf. record_run c0 env =
           (Returned, c2, evs @ [Ev_Log (Error_Recording (camera_id c1) e)] @ evf)
           \<and> record_finally c1 = (c2, evf)))
   \<and> (running c \<longrightarrow> cap c = Some cp \<longrightarrow> writer c = Some w \<longrightarrow> chunk_start_time c = Some t0 \<longrightarrow>
      st_read s \<longrightarrow> VideoWriter_write w (st_write s) = Inr Dropped \<longrightarrow>
      \<not> st_now s - t0 > chunk_duration_mins c * 60 \<longrightarrow>
        record_loop c (s # ss) =
          (case record_loop (if st_stop s then stop c else c) ss of
             (r, c', evs') \<Rightarrow> (r, c', [Ev_CapRead True, Ev_WriterWrite (w_ident w) Dropped] @ evs')))"
  by (auto simp: iteration_def record_run_def Let_def split: prod.splits)

theorem write_failure_handling_witness:
  "running example_camera \<and> st_read (frame 7300)
   \<and> VideoWriter_write (VideoWriter_init (\<lambda>k. True) 2 ''rec/cam1/c.mp4'' 30 (640, 480)) Backend_raises
        = Inl WriterError
   \<and> record_loop example_camera [(frame 7300)\<lparr>st_write := Backend_raises\<rparr>, frame 7400] =
       (Some (Inl WriterError), example_camera, [Ev_CapRead True, Ev_WriterWriteRaised 2])
   \<and> record_body fresh_camera env_write_raises =
       (Some (Inl WriterError), fst (snd (record_body fresh_camera env_write_raises)),
        snd (snd (record_body fresh_camera env_write_raises)))
   \<and> last (butlast (butlast (snd (snd (record_run fresh_camera env_write_raises))))) =
        Ev_Log (Error_Recording ''cam1'' WriterError)
   \<and> VideoWriter_write (VideoWriter_init (\<lambda>k. True) 2 ''rec/cam1/c.mp4'' 30 (640, 480)) Backend_drops
        = Inr Dropped
   \<and> record_loop example_camera [(frame 7300)\<lparr>st_write := Backend_drops\<rparr>, (frame 7400)\<lparr>st_read := False\<rparr>] =
       (Some (Inl ReadFailed), example_camera,
        [Ev_CapRead True, Ev_WriterWrite 2 Dropped, Ev_CapRead False])"
proof -
  let ?w = "VideoWriter_init (\<lambda>k. True) 2 ''rec/cam1/c.mp4'' 30 (640, 480)"
  let ?s1 = "(frame 7300)\<lparr>st_write := Backend_raises\<rparr>"
  let ?s2 = "(frame 7300)\<lparr>st_write := Backend_drops\<rparr>"
  have h: "running example_camera" "cap example_camera = Some webcam"
    "writer example_camera = Some ?w" "chunk_start_time example_camera = Some 7200"
    "chunk_duration_mins example_camera = 60" "w_ident ?w = 2"
    by (simp_all add: example_camera_def webcam_def worker_defs)
  have s: "st_read ?s1" "st_read ?s2" "st_read (frame 7300)" "st_now ?s2 = 7300" "\<not> st_stop ?s2"
    "VideoWriter_write ?w (st_write ?s1) = Inl WriterError"
    "VideoWriter_write ?w (st_write ?s2) = Inr Dropped"
    "VideoWriter_write ?w Backend_raises = Inl WriterError"
    "VideoWriter_write ?w Backend_drops = Inr Dropped"
    by (simp_all add: frame_def worker_defs)
  have b: "record_body fresh_camera env_write_raises =
       (Some (Inl WriterError), fst (snd (record_body fresh_camera env_write_raises)),
        snd (snd (record_body fresh_camera env_write_raises)))"
    by (simp add: worker_examples worker_defs)
  have f: "length (snd (record_finally (fst (snd (record_body fresh_camera env_write_raises))))) = 2"
    by (simp add: worker_examples worker_defs)
  have cid: "camera_id (fst (snd (record_body fresh_camera env_write_raises))) = ''cam1''"
    by (simp add: worker_examples worker_defs)
  have r2: "record_loop example_camera [(frame 7400)\<lparr>st_read := False\<rparr>] =
       (Some (Inl ReadFailed), example_camera, [Ev_CapRead False])"
    using h by (simp add: iteration_def frame_def)
  note t1 = write_failure_handling[of example_camera webcam ?w ?s1 WriterError "[frame 7400]"
      fresh_camera env_write_raises "fst (snd (record_body fresh_camera env_write_raises))"
      "snd (snd (record_body fresh_camera env_write_raises))" 7200]
  note t2 = write_failure_handling[of example_camera webcam ?w ?s2 WriterError "[(frame 7400)\<lparr>st_read := False\<rparr>]"
      fresh_camera env_write_raises "fst (snd (record_body fresh_camera env_write_raises))"
      "snd (snd (record_body fresh_camera env_write_raises))" 7200]
  have l: "last (butlast (butlast (snd (snd (record_run fresh_camera env_write_raises))))) =
        Ev_Log (Error_Recording ''cam1'' WriterError)"
  proof -
    from t1 b obtain c2 evf where
      r: "record_run fresh_camera env_write_raises =
           (Returned, c2, snd (snd (record_body fresh_camera env_write_raises))
               @ [Ev_Log (Error_Recording (camera_id (fst (snd (record_body fresh_camera env_write_raises)))) WriterError)] @ evf)"
      and "record_finally (fst (snd (record_body fresh_camera env_write_raises))) = (c2, evf)"
      by auto
    with f have "length evf = 2" by simp
    then obtain x y where "evf = [x, y]" by (cases evf; cases "tl evf") auto
    then show ?thesis using r cid by (simp add: butlast_append)
  qed
  from t1 t2 h s b l r2 show ?thesis by simp
qed

text \<open>A frame dropped without an exception ends no iteration, rotating or not.\<close>

lemma dropped_frame_iteration_returns:
  "cap c = Some cp \<Longrightarrow> writer c = Some w \<Longrightarrow> chunk_start_time c = Some t0 \<Longrightarrow> st_read s \<Longrightarrow>
   VideoWriter_write w (st_write s) = Inr Dropped \<Longrightarrow>
   fst (iteration c s) = Inr ()
   \<and> take 2 (snd (snd (iteration c s))) = [Ev_CapRead True, Ev_WriterWrite (w_ident w) Dropped]"
  by (auto simp: iteration_def start_new_chunk_ok Let_def split: prod.splits option.splits)

subsection \<open>C7: release on every exit path\<close>

text \<open>
  C7. For a worker that starts without a writer, as the constructor leaves it:
  \<^verbatim>\<open>record\<close> returns whenever the capture object does not open, the \<^verbatim>\<open>running\<close> flag is
  false, or some iteration has a failed read or a stop request. Whenever it returns
  (also after any other exception), \<^verbatim>\<open>cap.release()\<close> has been called exactly once and
  is the last call made; every writer that was opened has been released exactly once,
  in the order of opening, and none is left open; the capture object and the last
  writer are closed in the final state.
\<close>

theorem record_releases_once:
  assumes fresh: "writer self = None"
  shows "case record_run self env of (st, self', evs) \<Rightarrow>
      ((\<not> cap_isOpened (re_capture env) \<or> \<not> running self
          \<or> (\<exists>s\<in>set (re_steps env). \<not> st_read s \<or> st_stop s)) \<longrightarrow> st = Returned)
    \<and> (st = Returned \<longrightarrow>
         count_list evs Ev_CapRelease = 1 \<and> last evs = Ev_CapRelease
       \<and> released_ids evs = opened_ids evs \<and> distinct (opened_ids evs) \<and> live [] evs = []
       \<and> (\<exists>cp. cap self' = Some cp \<and> \<not> cap_isOpened cp)
       \<and> (\<forall>w. writer self' = Some w \<longrightarrow> \<not> vw_isOpened (w_writer w)))"
proof (cases "cap_isOpened (re_capture env)")
  case False
  show ?thesis
    using fresh by (simp add: record_run_def record_body_not_opened[OF False] record_finally_def)
next
  case True
  obtain r c' evs where rb: "record_body self env = (r, c', evs)"
    by (cases "record_body self env") auto
  note i = record_body_inv[OF fresh True rb]
  from i obtain cp w' where st: "cap c' = Some cp" "writer c' = Some w'"
    "released_ids evs @ [w_ident w'] = opened_ids evs" "live [] evs = [w_ident w']" by blast
  show ?thesis
  proof (cases r)
    case None
    with i True show ?thesis by (auto simp: record_run_def rb)
  next
    case (Some res)
    define evx where "evx = (case res of Inl e \<Rightarrow> [Ev_Log (Error_Recording (camera_id c') e)] | Inr _ \<Rightarrow> [])"
    have evx: "opened_ids evx = []" "released_ids evx = []" "live l evx = l" "count_list evx Ev_CapRelease = 0" for l
      by (cases res; simp add: evx_def)+
    have run: "record_run self env =
        (Returned, c'\<lparr>writer := Some (VideoWriter_release w'), cap := Some (cp\<lparr>cap_isOpened := False\<rparr>)\<rparr>,
         evs @ evx @ [Ev_WriterRelease (w_ident w') False, Ev_CapRelease])"
      using Some st
      by (simp add: record_run_def rb record_finally_def Let_def evx_def
          VideoWriter_release_def cv2_release_def)
    have "distinct (opened_ids evs)" using i by simp
    then show ?thesis
      using i st evx
      by (simp add: run opened_ids_append released_ids_append live_append count_list_append'
          VideoWriter_release_def cv2_release_def)
  qed
qed

theorem record_releases_once_witness:
  "writer fresh_camera = None
   \<and> (case record_run fresh_camera env_rotation of (st, self', evs) \<Rightarrow>
        st = Returned \<and> count_list evs Ev_CapRelease = 1 \<and> last evs = Ev_CapRelease
      \<and> opened_ids evs = [0, 1] \<and> released_ids evs = [0, 1] \<and> live [] evs = []
      \<and> (\<exists>cp. cap self' = Some cp \<and> \<not> cap_isOpened cp))"
proof -
  have h: "writer fresh_camera = None" by (simp add: fresh_camera_def)
  have e: "snd (snd (record_run fresh_camera env_rotation)) =
    [Ev_CapOpen 0 True,
     Ev_WriterOpen 0 ''rec/cam1/2024-01-01_00-00-00.mp4'' MP4V True,
     Ev_CapRead True, Ev_WriterWrite 0 Written, Ev_CapRead True,
     Ev_WriterWrite 0 Written, Ev_WriterRelease 0 False,
     Ev_WriterOpen 1 ''rec/cam1/2024-01-01_01-00-01.mp4'' MP4V True,
     Ev_Cleanup store_abc [chunk ''c.mp4'' 300 500000000, chunk ''notes.txt'' 50 2000000000,
          chunk ''b.mp4'' 200 500000000],
     Ev_Log (Info_Removing ''cam1'' ''a.mp4''), Ev_CapRead True,
     Ev_WriterWrite 1 Written, Ev_WriterRelease 1 False, Ev_CapRelease]"
    by (simp add: worker_examples worker_defs store_examples store_defs)
  have s: "\<exists>s\<in>set (re_steps env_rotation). \<not> st_read s \<or> st_stop s"
    by (simp add: worker_examples)
  from record_releases_once[OF h, of env_rotation] s e h
  show ?thesis by (auto split: prod.splits)
qed

subsection \<open>C8: one writer at a time, rotation, eviction at rotation only\<close>

text \<open>
  C8. (1) In every run of \<^verbatim>\<open>record\<close> of a worker that starts without a writer, after
  any number of its events at most one writer has an open handle; every \<^verbatim>\<open>release()\<close>
  of the run leaves its writer's handle closed; and every call of \<^verbatim>\<open>cleanup_old_files\<close>
  comes directly after the opening of a new writer. (2) A call of \<^verbatim>\<open>start_new_chunk\<close> with
  a capture object and a writer in place first releases that writer, whose handle is
  closed by the release, and then opens the new one, which becomes the worker's writer;
  it sets \<^verbatim>\<open>chunk_start_time\<close> to the clock it reads. (3) In an iteration whose frame was
  read and whose write returned, a new chunk is started exactly when
  \<^verbatim>\<open>time.time() - chunk_start_time > chunk_duration_mins * 60\<close>; the cleanup runs in
  exactly those iterations; and \<^verbatim>\<open>chunk_start_time\<close> is then the clock read by that
  \<^verbatim>\<open>start_new_chunk\<close>, and is unchanged in every other such iteration.
\<close>

theorem one_writer_and_eviction_at_rotation:
  "(writer self = None \<longrightarrow>
      (\<forall>k. length (live [] (take k (snd (snd (record_run self env))))) \<le> 1)
      \<and> list_all release_closes (snd (snd (record_run self env)))
      \<and> cleanup_after_open False (snd (snd (record_run self env))))
   \<and> (cap c = Some cp \<longrightarrow> writer c = Some w \<longrightarrow>
        (\<exists>f k b. snd (snd (start_new_chunk c e)) =
                    [Ev_WriterRelease (w_ident w) False, Ev_WriterOpen (writers_made c) f k b])
        \<and> \<not> vw_isOpened (w_writer (VideoWriter_release w))
        \<and> live [w_ident w] (snd (snd (start_new_chunk c e))) = [writers_made c]
        \<and> (\<exists>w'. writer (fst (snd (start_new_chunk c e))) = Some w' \<and> w_ident w' = writers_made c)
        \<and> chunk_start_time (fst (snd (start_new_chunk c e))) = Some (ce_time e))
   \<and> (cap c = Some cp \<longrightarrow> writer c = Some w \<longrightarrow> chunk_start_time c = Some t0 \<longrightarrow>
        st_read s \<longrightarrow> VideoWriter_write w (st_write s) = Inr wr \<longrightarrow>
        (opened_ids (snd (snd (iteration c s))) \<noteq> [])
           = (st_now s - t0 > chunk_duration_mins c * 60)
        \<and> (\<exists>x\<in>set (snd (snd (iteration c s))). is_cleanup x)
           = (st_now s - t0 > chunk_duration_mins c * 60)
        \<and> chunk_start_time (fst (snd (iteration c s))) =
            (if st_now s - t0 > chunk_duration_mins c * 60
             then Some (ce_time (st_chunk s)) else Some t0))"
proof (intro conjI impI allI)
  fix k assume f: "writer self = None"
  have "length (live [] (take k (snd (snd (record_run self env)))))
          \<le> peak [] (snd (snd (record_run self env)))" by (rule peak_prefix)
  with record_run_events[OF f, of env]
  show "length (live [] (take k (snd (snd (record_run self env))))) \<le> 1" by simp
next
  show "list_all release_closes (snd (snd (record_run self env)))" by (rule record_run_closes)
next
  assume f: "writer self = None"
  with record_run_events[OF f, of env]
  show "cleanup_after_open False (snd (snd (record_run self env)))" by simp
next
  assume "cap c = Some cp" "writer c = Some w"
  then show "\<exists>f k b. snd (snd (start_new_chunk c e)) =
                    [Ev_WriterRelease (w_ident w) False, Ev_WriterOpen (writers_made c) f k b]"
    by (simp add: start_new_chunk_ok)
next
  show "\<not> vw_isOpened (w_writer (VideoWriter_release w))"
    by (simp add: VideoWriter_release_def cv2_release_def)
next
  assume "cap c = Some cp" "writer c = Some w"
  then show "live [w_ident w] (snd (snd (start_new_chunk c e))) = [writers_made c]"
    by (simp add: start_new_chunk_ok)
next
  assume "cap c = Some cp" "writer c = Some w"
  then show "\<exists>w'. writer (fst (snd (start_new_chunk c e))) = Some w' \<and> w_ident w' = writers_made c"
    by (simp add: start_new_chunk_ok VideoWriter_init_def Let_def)
next
  assume "cap c = Some cp" "writer c = Some w"
  then show "chunk_start_time (fst (snd (start_new_chunk c e))) = Some (ce_time e)"
    by (simp add: start_new_chunk_ok)
next
  assume a: "cap c = Some cp" "writer c = Some w" "chunk_start_time c = Some t0"
    "st_read s" "VideoWriter_write w (st_write s) = Inr wr"
  then show "(opened_ids (snd (snd (iteration c s))) \<noteq> [])
           = (st_now s - t0 > chunk_duration_mins c * 60)"
    by (simp add: iteration_def start_new_chunk_ok Let_def opened_ids_append split: prod.splits)
next
  assume a: "cap c = Some cp" "writer c = Some w" "chunk_start_time c = Some t0"
    "st_read s" "VideoWriter_write w (st_write s) = Inr wr"
  then show "(\<exists>x\<in>set (snd (snd (iteration c s))). is_cleanup x)
           = (st_now s - t0 > chunk_duration_mins c * 60)"
    by (auto simp: iteration_def start_new_chunk_ok Let_def split: prod.splits)
next
  assume a: "cap c = Some cp" "writer c = Some w" "chunk_start_time c = Some t0"
    "st_read s" "VideoWriter_write w (st_write s) = Inr wr"
  then show "chunk_start_time (fst (snd (iteration c s))) =
            (if st_now s - t0 > chunk_duration_mins c * 60
             then Some (ce_time (st_chunk s)) else Some t0)"
    by (simp add: iteration_def start_new_chunk_ok Let_def split: prod.splits)
qed

theorem one_writer_and_eviction_at_rotation_witness:
  "writer fresh_camera = None
   \<and> (\<forall>k. length (live [] (take k (snd (snd (record_run fresh_camera env_rotation))))) \<le> 1)
   \<and> list_all release_closes (snd (snd (record_run fresh_camera env_rotation)))
   \<and> released_ids (snd (snd (record_run fresh_camera env_rotation))) = [0, 1]
   \<and> cleanup_after_open False (snd (snd (record_run fresh_camera env_rotation)))
   \<and> (\<exists>x\<in>set (snd (snd (record_run fresh_camera env_rotation))). is_cleanup x)
   \<and> cap example_camera = Some webcam
   \<and> chunk_start_time example_camera = Some 7200
   \<and> vw_isOpened (w_writer (VideoWriter_init (\<lambda>k. True) 2 ''rec/cam1/c.mp4'' 30 (640, 480)))
   \<and> \<not> vw_isOpened (w_writer (VideoWriter_release
          (VideoWriter_init (\<lambda>k. True) 2 ''rec/cam1/c.mp4'' 30 (640, 480))))
   \<and> snd (snd (start_new_chunk example_camera (good_chunk ''2024-01-01_03-00-01'' 10801))) =
        [Ev_WriterRelease 2 False, Ev_WriterOpen 3 ''rec/cam1/2024-01-01_03-00-01.mp4'' MP4V True]
   \<and> chunk_start_time (fst (snd (start_new_chunk example_camera
        (good_chunk ''2024-01-01_03-00-01'' 10801)))) = Some 10801
   \<and> opened_ids (snd (snd (iteration example_camera (frame 10801)))) \<noteq> []
   \<and> (\<exists>x\<in>set (snd (snd (iteration example_camera (frame 10801)))). is_cleanup x)
   \<and> chunk_start_time (fst (snd (iteration example_camera (frame 10801)))) = Some 10801
   \<and> opened_ids (snd (snd (iteration example_camera (frame 10800)))) = []
   \<and> chunk_start_time (fst (snd (iteration example_camera (frame 10800)))) = Some 7200"
proof -
  let ?w = "VideoWriter_init (\<lambda>k. True) 2 ''rec/cam1/c.mp4'' 30 (640, 480)"
  have h1: "writer fresh_camera = None" by (simp add: fresh_camera_def)
  have h2: "cap example_camera = Some webcam" "writer example_camera = Some ?w"
    "chunk_start_time example_camera = Some 7200"
    by (simp_all add: example_camera_def webcam_def)
  have h3: "st_read (frame 10801)" "VideoWriter_write ?w (st_write (frame 10801)) = Inr Written"
    "st_read (frame 10800)" "VideoWriter_write ?w (st_write (frame 10800)) = Inr Written"
    by (simp_all add: frame_def worker_defs)
  have e: "\<exists>x\<in>set (snd (snd (record_run fresh_camera env_rotation))). is_cleanup x"
    "released_ids (snd (snd (record_run fresh_camera env_rotation))) = [0, 1]"
    by (simp_all add: worker_examples worker_defs store_examples store_defs)
  have s: "snd (snd (start_new_chunk example_camera (good_chunk ''2024-01-01_03-00-01'' 10801))) =
        [Ev_WriterRelease 2 False, Ev_WriterOpen 3 ''rec/cam1/2024-01-01_03-00-01.mp4'' MP4V True]"
    by (simp add: example_camera_def good_chunk_def worker_defs)
  have o: "vw_isOpened (w_writer ?w)" by (simp add: worker_defs)
  have d: "chunk_duration_mins example_camera = 60" by (simp add: example_camera_def)
  note t1 = one_writer_and_eviction_at_rotation[of fresh_camera env_rotation example_camera webcam ?w
      "good_chunk ''2024-01-01_03-00-01'' 10801" 7200 "frame 10801" Written]
  note t2 = one_writer_and_eviction_at_rotation[of fresh_camera env_rotation example_camera webcam ?w
      "good_chunk ''2024-01-01_03-00-01'' 10801" 7200 "frame 10800" Written]
  have n1: "st_now (frame 10801) = 10801" "st_now (frame 10800) = 10800"
    "ce_time (st_chunk (frame 10801)) = 10801"
    "ce_time (good_chunk ''2024-01-01_03-00-01'' 10801) = 10801"
    by (simp_all add: frame_def good_chunk_def)
  from t1 t2 h1 h2 h3 e s o d n1 show ?thesis by simp
qed

subsection \<open>C9: a writer that cannot be opened\<close>

text \<open>
  C9. \<^verbatim>\<open>VideoWriter.__init__\<close> has no failing branch: it keeps the \<^verbatim>\<open>mp4v\<close> handle if that
  opened and the \<^verbatim>\<open>MJPG\<close> handle otherwise, whether or not the latter opened. When both
  codecs fail, the object is returned all the same, a write to it returns with the frame
  dropped whatever the encoder would have done, and a release leaves it closed. With a
  capture object in place \<^verbatim>\<open>start_new_chunk\<close> returns normally for every outcome of the
  codecs and installs the new object as the writer. In the loop a frame written to a
  writer that is not open is dropped without an exception. (That OpenCV returns a handle
  instead of raising, and ignores writes to a closed handle, is the model of OpenCV
  stated with \<^const>\<open>cv2_write\<close>.)
\<close>

theorem writer_construction_never_fails:
  "vw_fourcc (w_writer (VideoWriter_init ok i fn fps sz)) = (if ok MP4V then MP4V else MJPG)
   \<and> vw_isOpened (w_writer (VideoWriter_init ok i fn fps sz)) = (ok MP4V \<or> ok MJPG)
   \<and> (\<not> ok MP4V \<longrightarrow> \<not> ok MJPG \<longrightarrow>
        VideoWriter_write (VideoWriter_init ok i fn fps sz) b = Inr Dropped
        \<and> \<not> vw_isOpened (w_writer (VideoWriter_release (VideoWriter_init ok i fn fps sz))))
   \<and> (cap c = Some cp \<longrightarrow>
        fst (start_new_chunk c e) = Inr ()
        \<and> writer (fst (snd (start_new_chunk c e))) =
            Some (VideoWriter_init (ce_codec_ok e) (writers_made c)
                    (path_str (storage_dir c @ [ce_timestamp e @ ''.mp4'']))
                    (cap_fps cp) (cap_width cp, cap_height cp)))
   \<and> (cap c1 = Some cp1 \<longrightarrow> writer c1 = Some w \<longrightarrow> \<not> vw_isOpened (w_writer w) \<longrightarrow> st_read s \<longrightarrow>
        fst (iteration c1 s) \<noteq> Inl WriterError
        \<and> take 2 (snd (snd (iteration c1 s))) = [Ev_CapRead True, Ev_WriterWrite (w_ident w) Dropped])"
  by (auto simp: VideoWriter_init_def VideoWriter_write_def VideoWriter_release_def
      cv2_VideoWriter_new_def cv2_write_def cv2_release_def start_new_chunk_ok iteration_def Let_def
      split: prod.splits option.splits)

theorem writer_construction_never_fails_witness:
  "vw_fourcc (w_writer (VideoWriter_init (\<lambda>k. False) 3 ''rec/cam1/d.mp4'' 30 (640, 480))) = MJPG
   \<and> \<not> vw_isOpened (w_writer (VideoWriter_init (\<lambda>k. False) 3 ''rec/cam1/d.mp4'' 30 (640, 480)))
   \<and> VideoWriter_write (VideoWriter_init (\<lambda>k. False) 3 ''rec/cam1/d.mp4'' 30 (640, 480))
        Backend_raises = Inr Dropped
   \<and> cap example_camera = Some webcam
   \<and> fst (start_new_chunk example_camera
            ((good_chunk ''d'' 10801)\<lparr>ce_codec_ok := (\<lambda>k. False)\<rparr>)) = Inr ()
   \<and> writer (fst (snd (start_new_chunk example_camera
            ((good_chunk ''d'' 10801)\<lparr>ce_codec_ok := (\<lambda>k. False)\<rparr>)))) =
       Some (VideoWriter_init (\<lambda>k. False) 3 ''rec/cam1/d.mp4'' 30 (640, 480))
   \<and> iteration (fst (snd (start_new_chunk example_camera
            ((good_chunk ''d'' 10801)\<lparr>ce_codec_ok := (\<lambda>k. False)\<rparr>))))
         ((frame 10900)\<lparr>st_write := Backend_raises\<rparr>) =
       (Inr (), fst (snd (start_new_chunk example_camera
            ((good_chunk ''d'' 10801)\<lparr>ce_codec_ok := (\<lambda>k. False)\<rparr>))),
        [Ev_CapRead True, Ev_WriterWrite 3 Dropped])"
proof -
  let ?e = "(good_chunk ''d'' 10801)\<lparr>ce_codec_ok := (\<lambda>k. False)\<rparr>"
  let ?w = "VideoWriter_init (\<lambda>k. False) 3 ''rec/cam1/d.mp4'' 30 (640, 480)"
  let ?c = "fst (snd (start_new_chunk example_camera ?e))"
  let ?s = "(frame 10900)\<lparr>st_write := Backend_raises\<rparr>"
  have h: "cap example_camera = Some webcam" by (simp add: example_camera_def webcam_def)
  have c: "cap ?c = Some webcam" "writer ?c = Some ?w" "\<not> vw_isOpened (w_writer ?w)" "st_read ?s"
    by (simp_all add: example_camera_def webcam_def good_chunk_def frame_def worker_defs)
  have i: "iteration ?c ?s = (Inr (), ?c, [Ev_CapRead True, Ev_WriterWrite 3 Dropped])"
    by (simp add: example_camera_def webcam_def good_chunk_def frame_def worker_defs)
  note t1 = writer_construction_never_fails[where ok = "\<lambda>k. False" and i = 3
      and fn = "''rec/cam1/d.mp4''" and fps = 30 and sz = "(640, 480)" and b = Backend_raises
      and c = example_camera and cp = webcam and e = ?e and ?c1.0 = ?c and ?cp1.0 = webcam
      and w = ?w and s = ?s]
  have p: "path_str (storage_dir example_camera @ [ce_timestamp ?e @ ''.mp4'']) = ''rec/cam1/d.mp4''"
    "writers_made example_camera = 3" "cap_fps webcam = 30" "cap_width webcam = 640"
    "cap_height webcam = 480" "ce_codec_ok ?e = (\<lambda>k. False)"
    by (simp_all add: example_camera_def webcam_def good_chunk_def)
  from t1 h c i p show ?thesis by simp
qed

section \<open>The supervisor: load_config, signal_handler, run\<close>

subsection \<open>Auxiliary facts\<close>

text \<open>
  \<^verbatim>\<open>self.running\<close> is cleared by the signal handler only, and the handler ends in
  \<^verbatim>\<open>sys.exit(0)\<close>: the wait loop is left by \<^verbatim>\<open>SystemExit\<close> or not at all, and the
  \<^verbatim>\<open>thread.join()\<close> calls after it are never reached.
\<close>

lemma wait_loop_running:
  "ms_running s \<Longrightarrow>
   fst (wait_loop s ticks) = (if Signal \<in> set ticks then Some (Inl 0) else None)
   \<and> (\<forall>k. Act_Join k \<notin> set (snd (snd (wait_loop s ticks)))
            \<and> Act_StartThread k \<notin> set (snd (snd (wait_loop s ticks))))"
proof (induction ticks)
  case Nil
  then show ?case by simp
next
  case (Cons t ticks)
  then show ?case
    by (cases t) (auto simp: signal_handler_def split: prod.splits)
qed

lemma run_outcome:
  "fst (run s ticks) = (if Signal \<in> set ticks then Exited 0 else Waiting)
   \<and> (\<forall>k. Act_Join k \<notin> set (snd (snd (run s ticks))))
   \<and> [k. Act_StartThread k \<leftarrow> snd (snd (run s ticks))] = map fst (ms_cameras s)"
proof -
  define s2 where "s2 = s\<lparr>ms_running := True,
      ms_cameras := map (\<lambda>(k, c). (k, c\<lparr>running := True\<rparr>)) (ms_cameras s)\<rparr>"
  have r: "ms_running s2" by (simp add: s2_def)
  obtain x s3 as where w: "wait_loop s2 ticks = (x, s3, as)" by (cases "wait_loop s2 ticks") auto
  from wait_loop_running[OF r, of ticks] w
  have x: "x = (if Signal \<in> set ticks then Some (Inl 0) else None)"
    and as: "\<forall>k. Act_Join k \<notin> set as \<and> Act_StartThread k \<notin> set as"
    by simp_all
  have nj: "Act_Join k \<notin> set as" for k using as by auto
  have ns: "[k. Act_StartThread k \<leftarrow> as] = []"
  proof -
    have "\<forall>a\<in>set as. \<forall>k. a \<noteq> Act_StartThread k" using as by auto
    then show ?thesis by (induction as) (auto split: action.splits)
  qed
  have st: "[k. Act_StartThread k \<leftarrow> map (\<lambda>(k, c). Act_StartThread k) cs] = map fst cs" for cs :: cameras
    by (induction cs) auto
  have run: "run s ticks = (if Signal \<in> set ticks then Exited 0 else Waiting, s3,
      map (\<lambda>(k, c). Act_StartThread k) (ms_cameras s) @ as)"
    using w x by (simp add: run_def Let_def s2_def)
  show ?thesis using nj ns st by (auto simp: run)
qed

subsection \<open>C5: shutdown on a signal\<close>

text \<open>
  C5, evaluated on the code for two cameras and a signal during the second sleep: the
  handler calls \<^verbatim>\<open>stop()\<close> on both workers and the process exits with status 0, but
  between the two nothing waits for the workers: no \<^verbatim>\<open>thread.join()\<close> is executed.
\<close>

theorem signal_exit_skips_join:
  "main_script (\<lambda>p. True) (Some two_cameras) [Quiet, Signal] =
     (Exited 0, [Act_StartThread ''cam1'', Act_StartThread ''cam2'', Act_Sleep, Act_Sleep,
                 Act_Log Info_ShutdownSignal, Act_Stop ''cam1'', Act_Stop ''cam2''])"
  by (simp add: two_cameras_def supervisor_defs)

subsection \<open>C6: failures at startup\<close>

text \<open>
  An empty camera list loads without error. The process then starts no worker and
  waits; it does not abort, and a signal ends it with status 0.
\<close>

theorem zero_cameras_accepted:
  "load_config (\<lambda>p. True) (Some no_cameras) = ([], Inr [])
   \<and> main_script (\<lambda>p. True) (Some no_cameras) [Quiet, Quiet, Quiet] =
       (Waiting, [Act_Sleep, Act_Sleep, Act_Sleep])
   \<and> main_script (\<lambda>p. True) (Some no_cameras) [Quiet, Signal] =
       (Exited 0, [Act_Sleep, Act_Sleep, Act_Log Info_ShutdownSignal])"
  by (simp add: no_cameras_def supervisor_defs)

text \<open>
  C6, as the code has it. Whenever loading the configuration raises, the process logs
  the error and exits with status 1, having started no worker; this is the case when
  the file is missing or unparseable and when it has no \<^verbatim>\<open>cameras\<close> key. An empty camera
  list loads successfully, and after any successful load the process starts one worker
  per camera loaded (none for an empty list) and never exits with a status other than
  0: it waits until a signal arrives.
\<close>

theorem startup_failure_exits:
  "(load_config_body mk file = Inl e \<longrightarrow>
      main_script mk file ticks = (Exited 1, [Act_Log (Error_LoadConfig e)]))
   \<and> load_config_body mk None = Inl ConfigUnreadable
   \<and> (cf_cameras cfg = None \<longrightarrow> load_config_body mk (Some cfg) = Inl (KeyError ''cameras''))
   \<and> (cf_cameras cfg = Some [] \<longrightarrow> load_config_body mk (Some cfg) = Inr [])
   \<and> (load_config_body mk file = Inr cams \<longrightarrow>
        fst (main_script mk file ticks) = (if Signal \<in> set ticks then Exited 0 else Waiting)
        \<and> [k. Act_StartThread k \<leftarrow> snd (main_script mk file ticks)] = map fst cams)"
proof (intro conjI impI)
  assume "load_config_body mk file = Inl e"
  then show "main_script mk file ticks = (Exited 1, [Act_Log (Error_LoadConfig e)])"
    by (simp add: main_script_def MultiCameraSystem_init_def load_config_def)
next
  show "load_config_body mk None = Inl ConfigUnreadable" by (simp add: load_config_body_def)
next
  assume "cf_cameras cfg = None"
  then show "load_config_body mk (Some cfg) = Inl (KeyError ''cameras'')"
    by (simp add: load_config_body_def Let_def)
next
  assume "cf_cameras cfg = Some []"
  then show "load_config_body mk (Some cfg) = Inr []" by (simp add: load_config_body_def Let_def)
next
  assume a: "load_config_body mk file = Inr cams"
  define s where "s = \<lparr>ms_cameras = cams, ms_running = False\<rparr>"
  obtain p s' as where r: "run s ticks = (p, s', as)" by (cases "run s ticks") auto
  have m: "main_script mk file ticks = (p, as)"
    using a r by (simp add: main_script_def MultiCameraSystem_init_def load_config_def s_def)
  from run_outcome[of s ticks] r
  show "fst (main_script mk file ticks) = (if Signal \<in> set ticks then Exited 0 else Waiting)"
    by (simp add: m)
  from run_outcome[of s ticks] r
  show "[k. Act_StartThread k \<leftarrow> snd (main_script mk file ticks)] = map fst cams"
    by (simp add: m s_def)
qed

theorem startup_failure_exits_witness:
  "load_config_body (\<lambda>p. True) None = Inl ConfigUnreadable
   \<and> main_script (\<lambda>p. True) None [Quiet, Signal] = (Exited 1, [Act_Log (Error_LoadConfig ConfigUnreadable)])
   \<and> main_script (\<lambda>p. True) (Some (no_cameras\<lparr>cf_cameras := None\<rparr>)) [Quiet] =
        (Exited 1, [Act_Log (Error_LoadConfig (KeyError ''cameras''))])
   \<and> load_config_body (\<lambda>p. True) (Some no_cameras) = Inr []
   \<and> fst (main_script (\<lambda>p. True) (Some no_cameras) [Quiet, Quiet]) = Waiting
   \<and> [k. Act_StartThread k \<leftarrow> snd (main_script (\<lambda>p. True) (Some no_cameras) [Quiet, Quiet])] = []"
proof -
  have h1: "cf_cameras (no_cameras\<lparr>cf_cameras := None\<rparr>) = None" by simp
  have h2: "cf_cameras no_cameras = Some []" by (simp add: no_cameras_def)
  note t1 = startup_failure_exits[of "\<lambda>p. True" None ConfigUnreadable "[Quiet, Signal]" no_cameras "[]"]
  note t2 = startup_failure_exits[of "\<lambda>p. True" "Some (no_cameras\<lparr>cf_cameras := None\<rparr>)"
      "KeyError ''cameras''" "[Quiet]" "no_cameras\<lparr>cf_cameras := None\<rparr>" "[]"]
  note t3 = startup_failure_exits[of "\<lambda>p. True" "Some no_cameras" ConfigUnreadable "[Quiet, Quiet]"
      no_cameras "[]"]
  from t1 t2 t3 h1 h2 show ?thesis by simp
qed

end
